theory Spec2Isabelle
  imports Complex_Main
begin

section \<open>Data model\<close>

text \<open>
  The learner of \<^verbatim>\<open>tabular/learner/default_learner.py\<close> works on pandas frames and
  series. A cell is a finite number, a string, or one of the non-finite markers the code
  distinguishes: NaN, the two infinities and Python's None. Row keys (the index) are cells
  too. Python's floats are modelled by exact rationals.
\<close>

datatype val = Num rat | Str string | NaN | PosInf | NegInf | NoneVal

datatype problem_type = BINARY | MULTICLASS | REGRESSION | QUANTILE

text \<open>A column label is a string or Python's None (\<^verbatim>\<open>self.sample_weight\<close> may be None).\<close>

type_synonym colname = "string option"

text \<open>
  Every raise of the modelled code is a value. The payload carries what the message
  of the exception names.
\<close>

datatype error =
    ZeroDivisionError
  | TypeError
  | KeyError colname
  | NonFiniteLabel string val
  | WeightColumnCollision colname
  | AutoWeightNotSupported
  | MissingSampleWeight colname string
  | LowFrequencyClasses string
  | AttributeError
  | NoObjectsToConcatenate
  | LengthMismatch

text \<open>The warnings \<^verbatim>\<open>adjust_threshold_if_necessary\<close> logs: old value, new value.\<close>

datatype warning =
    Updated_label_count_threshold int int
  | Updated_holdout_frac rat rat
  | Updated_num_bag_folds int int

section \<open>Frames\<close>

text \<open>
  A pandas DataFrame: the row keys and the columns, each column a name with one cell per
  row. A Series is the list of its cells: every series of this code is read from, or
  assigned to, a frame that carries the same row keys, so the alignment is positional.
\<close>

record frame =
  index :: "val list"
  data :: "(colname \<times> val list) list"

definition columns :: "frame \<Rightarrow> colname list" where
  "columns X = map fst (data X)"

definition len :: "frame \<Rightarrow> nat" where
  "len X = length (index X)"

text \<open>\<^verbatim>\<open>X[c]\<close>: KeyError when the frame has no such column.\<close>

definition getitem :: "frame \<Rightarrow> colname \<Rightarrow> error + val list" where
  "getitem X c = (case map_of (data X) c of None \<Rightarrow> Inl (KeyError c) | Some vs \<Rightarrow> Inr vs)"

fun update_col :: "colname \<Rightarrow> val list \<Rightarrow> (colname \<times> val list) list \<Rightarrow> (colname \<times> val list) list" where
  "update_col c vs [] = [(c, vs)]"
| "update_col c vs ((n, old) # rest) =
     (if n = c then (n, vs) # rest else (n, old) # update_col c vs rest)"

text \<open>\<^verbatim>\<open>X[c] = vs\<close>: the column is replaced where it stands, or added last.\<close>

definition setitem :: "frame \<Rightarrow> colname \<Rightarrow> val list \<Rightarrow> frame" where
  "setitem X c vs = X\<lparr>data := update_col c vs (data X)\<rparr>"

text \<open>\<^verbatim>\<open>X.drop(c, axis=1)\<close> for a column the frame has.\<close>

definition drop_column :: "frame \<Rightarrow> colname \<Rightarrow> frame" where
  "drop_column X c = X\<lparr>data := filter (\<lambda>p. fst p \<noteq> c) (data X)\<rparr>"

text \<open>\<^verbatim>\<open>X.iloc[a:b]\<close>: the rows at positions \<open>a\<close> up to \<open>b\<close>, keys kept.\<close>

definition iloc :: "frame \<Rightarrow> nat \<Rightarrow> nat \<Rightarrow> frame" where
  "iloc X a b =
     \<lparr>index = take (b - a) (drop a (index X)),
      data = map (\<lambda>(n, vs). (n, take (b - a) (drop a vs))) (data X)\<rparr>"

text \<open>\<^verbatim>\<open>X.set_index(idx)\<close> with a ready index: ValueError unless it has one key per row.\<close>

definition set_index :: "frame \<Rightarrow> val list \<Rightarrow> error + frame" where
  "set_index X idx = (if length idx \<noteq> len X then Inl LengthMismatch else Inr (X\<lparr>index := idx\<rparr>))"

text \<open>The RangeIndex \<open>0, ..., n - 1\<close> that \<^verbatim>\<open>ignore_index=True\<close> gives.\<close>

definition range_index :: "nat \<Rightarrow> val list" where
  "range_index n = map (\<lambda>i. Num (of_nat i)) [0..<n]"

text \<open>
  The cells of column \<open>c\<close> in a concatenation: a frame without the column contributes NaN
  for each of its rows.
\<close>

definition column_or_nan :: "colname \<Rightarrow> frame \<Rightarrow> val list" where
  "column_or_nan c X = (case map_of (data X) c of None \<Rightarrow> replicate (len X) NaN | Some vs \<Rightarrow> vs)"

text \<open>
  \<^verbatim>\<open>pd.concat(objs, ignore_index=True)\<close> on frames: None entries are dropped, the rows
  follow each other, the columns are the union of the columns in order of first
  appearance. ValueError when every entry is None.
\<close>

fun drop_none :: "'a option list \<Rightarrow> 'a list" where
  "drop_none [] = []"
| "drop_none (None # objs) = drop_none objs"
| "drop_none (Some x # objs) = x # drop_none objs"

definition pd_concat :: "frame option list \<Rightarrow> error + frame" where
  "pd_concat objs =
     (let frames = drop_none objs
      in if frames = [] then Inl NoObjectsToConcatenate
         else Inr \<lparr>index = range_index (sum_list (map len frames)),
                   data = map (\<lambda>c. (c, concat (map (column_or_nan c) frames)))
                            (rev (remdups (rev (concat (map columns frames)))))\<rparr>)"

text \<open>The same on series.\<close>

definition pd_concat_series :: "val list option list \<Rightarrow> error + val list" where
  "pd_concat_series objs =
     (let series = drop_none objs
      in if series = [] then Inl NoObjectsToConcatenate else Inr (concat series))"

section \<open>Class counts\<close>

text \<open>pandas \<^verbatim>\<open>isna\<close>: NaN and None are missing.\<close>

definition isna :: "val \<Rightarrow> bool" where
  "isna v = (v = NaN \<or> v = NoneVal)"

text \<open>
  \<^verbatim>\<open>Series.value_counts()\<close>: the missing labels are dropped, every other distinct label is
  paired with the number of its rows, and the table is sorted by descending count.
\<close>

definition value_counts :: "val list \<Rightarrow> (val \<times> nat) list" where
  "value_counts y =
     (let present = filter (\<lambda>v. \<not> isna v) y
      in sort_key (\<lambda>p. - int (snd p)) (map (\<lambda>c. (c, count_list present c)) (remdups present)))"

section \<open>Threshold adjustment\<close>

definition minimum_percent_to_keep :: rat where
  "minimum_percent_to_keep = 975 / 1000"

definition minimum_class_to_keep :: int where
  "minimum_class_to_keep = 2"

text \<open>
  The loop of \<^verbatim>\<open>_adjust_threshold_if_necessary\<close> (lines 452 to 457) over the counts that
  are left, most frequent first. \<open>new_threshold\<close> starts as None and is the count of the
  class visited last.
\<close>

fun accumulate_classes :: "int \<Rightarrow> int \<Rightarrow> int \<Rightarrow> int option \<Rightarrow> int list \<Rightarrow> int option" where
  "accumulate_classes minimum_rows_to_keep num_classes_valid num_rows_valid new_threshold [] =
     new_threshold"
| "accumulate_classes minimum_rows_to_keep num_classes_valid num_rows_valid new_threshold (c # cs) =
     (if num_rows_valid + c \<ge> minimum_rows_to_keep \<and> num_classes_valid + 1 \<ge> minimum_class_to_keep
      then Some c
      else accumulate_classes minimum_rows_to_keep (num_classes_valid + 1) (num_rows_valid + c)
             (Some c) cs)"

text \<open>
  \<^verbatim>\<open>_adjust_threshold_if_necessary\<close> (lines 418 to 459). \<^verbatim>\<open>1 / num_rows\<close> raises
  ZeroDivisionError on an empty series. The returned threshold is None when the loop
  visits no class.
\<close>

definition priv_adjust_threshold_if_necessary ::
  "problem_type \<Rightarrow> val list \<Rightarrow> int \<Rightarrow> rat \<Rightarrow> int \<Rightarrow> error + (int option \<times> rat \<times> int)" where
  "priv_adjust_threshold_if_necessary ptype y threshold holdout_frac num_bag_folds =
     (let num_rows = int (length y)
      in if num_rows = 0 then Inl ZeroDivisionError
      else
        let holdout_frac = max holdout_frac (1 / of_int num_rows + 1 / 1000);
            num_bag_folds = min num_bag_folds num_rows;
            minimum_safe_threshold = (if num_bag_folds < 2 then 1 else 2);
            new_threshold =
              (if minimum_safe_threshold > threshold then minimum_safe_threshold else threshold)
        in if ptype = REGRESSION \<or> ptype = QUANTILE
           then Inr (Some new_threshold, holdout_frac, num_bag_folds)
           else
             let class_counts = map (\<lambda>p. int (snd p)) (value_counts y);
                 total_rows = sum_list class_counts;
                 minimum_rows_to_keep = \<lceil>of_int total_rows * minimum_percent_to_keep\<rceil>;
                 class_counts_valid = filter (\<lambda>c. c \<ge> new_threshold) class_counts;
                 num_rows_valid = sum_list class_counts_valid;
                 num_classes_valid = int (length class_counts_valid)
             in if num_rows_valid \<ge> minimum_rows_to_keep
                   \<and> num_classes_valid \<ge> minimum_class_to_keep
                then Inr (Some new_threshold, holdout_frac, num_bag_folds)
                else Inr (accumulate_classes minimum_rows_to_keep 0 0 None class_counts,
                          holdout_frac, num_bag_folds))"

text \<open>
  \<^verbatim>\<open>adjust_threshold_if_necessary\<close> (lines 406 to 416), with the warnings it logs.
  \<^verbatim>\<open>new_threshold < threshold\<close> raises TypeError when the new threshold is None.
\<close>

definition adjust_threshold_if_necessary ::
  "problem_type \<Rightarrow> val list \<Rightarrow> int \<Rightarrow> rat \<Rightarrow> int
     \<Rightarrow> error + ((int \<times> rat \<times> int) \<times> warning list)" where
  "adjust_threshold_if_necessary ptype y threshold holdout_frac num_bag_folds =
     (case priv_adjust_threshold_if_necessary ptype y threshold holdout_frac num_bag_folds of
        Inl e \<Rightarrow> Inl e
      | Inr (new_threshold, new_holdout_frac, new_num_bag_folds) \<Rightarrow>
          (case new_threshold of
             None \<Rightarrow> Inl TypeError
           | Some t \<Rightarrow>
               Inr ((t, new_holdout_frac, new_num_bag_folds),
                    (if t \<noteq> threshold \<and> t < threshold
                     then [Updated_label_count_threshold threshold t] else [])
                    @ (if new_holdout_frac \<noteq> holdout_frac \<and> new_holdout_frac > holdout_frac
                       then [Updated_holdout_frac holdout_frac new_holdout_frac] else [])
                    @ (if new_num_bag_folds \<noteq> num_bag_folds
                       then [Updated_num_bag_folds num_bag_folds new_num_bag_folds] else []))))"

section \<open>What a threshold retains\<close>

definition class_counts_of :: "val list \<Rightarrow> int list" where
  "class_counts_of y = map (\<lambda>p. int (snd p)) (value_counts y)"

definition rows_kept :: "val list \<Rightarrow> int \<Rightarrow> int" where
  "rows_kept y t = sum_list (filter (\<lambda>c. c \<ge> t) (class_counts_of y))"

definition classes_kept :: "val list \<Rightarrow> int \<Rightarrow> int" where
  "classes_kept y t = int (length (filter (\<lambda>c. c \<ge> t) (class_counts_of y)))"

definition keeps_enough :: "val list \<Rightarrow> int \<Rightarrow> bool" where
  "keeps_enough y t =
     (rows_kept y t \<ge> \<lceil>of_int (sum_list (class_counts_of y)) * minimum_percent_to_keep\<rceil>
      \<and> classes_kept y t \<ge> 2)"

text \<open>The threshold of a result; None when the call raised or returned no threshold.\<close>

definition returned_threshold :: "error + (int option \<times> rat \<times> int) \<Rightarrow> int option" where
  "returned_threshold res = (case res of Inl e \<Rightarrow> None | Inr (t, hf, nb) \<Rightarrow> t)"

text \<open>The count of the last class of the count table, when there is a class.\<close>

definition last_class_count :: "val list \<Rightarrow> int option" where
  "last_class_count y = (case class_counts_of y of [] \<Rightarrow> None | c # cs \<Rightarrow> Some (last (c # cs)))"

text \<open>Comparing two returned thresholds; None stands only beside None.\<close>

definition threshold_le :: "int option \<Rightarrow> int option \<Rightarrow> bool" where
  "threshold_le a b =
     (case a of None \<Rightarrow> b = None | Some x \<Rightarrow> (case b of None \<Rightarrow> False | Some z \<Rightarrow> x \<le> z))"

text \<open>
  The threshold after lines 419 to 430: the request, raised to the minimum that the clamped
  number of bagging folds makes safe.
\<close>

definition safe_threshold :: "val list \<Rightarrow> int \<Rightarrow> int \<Rightarrow> int" where
  "safe_threshold y threshold num_bag_folds =
     (let minimum_safe_threshold = (if min num_bag_folds (int (length y)) < 2 then 1 else 2)
      in if minimum_safe_threshold > threshold then minimum_safe_threshold else threshold)"

section \<open>The learner and its collaborators\<close>

text \<open>
  Modelled from the spec: the constants \<^verbatim>\<open>AUTO_WEIGHT\<close> and \<^verbatim>\<open>BALANCE_WEIGHT\<close> of
  \<^verbatim>\<open>autogluon.core.constants\<close>, which the sources at hand do not hold. The spec names the
  two predefined weighting strategies "auto" and "balance".
\<close>

definition AUTO_WEIGHT :: colname where
  "AUTO_WEIGHT = Some ''auto''"

definition BALANCE_WEIGHT :: colname where
  "BALANCE_WEIGHT = Some ''balance''"

text \<open>
  The feature generator as the learner sees it: \<^verbatim>\<open>is_fit()\<close> and \<^verbatim>\<open>transform\<close>. The
  fitted label cleaner: its \<^verbatim>\<open>transform\<close> and its \<^verbatim>\<open>problem_type_transform\<close>. The fitted
  cleaner is its \<^verbatim>\<open>transform\<close>.
\<close>

record generator =
  is_fit :: bool
  transform :: "frame \<Rightarrow> frame"

record label_cleaner_obj =
  lc_transform :: "val list \<Rightarrow> val list"
  problem_type_transform :: problem_type

datatype generator_call = Call_transform | Call_fit_transform

text \<open>
  The fields of \<^verbatim>\<open>self\<close> that the data processing reads or writes. \<open>needs_proba\<close> is None
  when \<^verbatim>\<open>self.eval_metric\<close> is None. \<open>generator_calls\<close> is a ghost field: the calls made to
  the feature generator so far, oldest first.
\<close>

record learner =
  label :: colname
  problem_type :: problem_type
  needs_proba :: "bool option"
  groups :: colname
  sample_weight :: colname
  weight_evaluation :: bool
  positive_class :: "val option"
  threshold :: int
  class_weights :: "(val \<times> rat) list option"
  cleaner :: "(frame \<Rightarrow> frame) option"
  label_cleaner :: "label_cleaner_obj option"
  feature_generator :: generator
  original_features :: "colname list option"
  generator_calls :: "generator_call list"

text \<open>
  The collaborators whose code is outside the sources at hand, taken as parameters:
  \<^verbatim>\<open>augment_rare_classes(X, label, threshold)\<close>;
  \<^verbatim>\<open>Cleaner.construct(problem_type, label, threshold).fit_transform(X)\<close>, giving the fitted
  cleaner and the cleaned frame; \<^verbatim>\<open>LabelCleaner.construct(problem_type, y, y_uncleaned,
  positive_class)\<close>; and \<^verbatim>\<open>fit_transform_features(X, y, problem_type, eval_metric)\<close>, giving the
  generator after the fit and the transformed frame.
\<close>

record collaborators =
  augment_rare_classes :: "frame \<Rightarrow> colname \<Rightarrow> int \<Rightarrow> frame"
  Cleaner_fit_transform :: "problem_type \<Rightarrow> colname \<Rightarrow> int \<Rightarrow> frame \<Rightarrow> (frame \<Rightarrow> frame) \<times> frame"
  LabelCleaner_construct ::
    "problem_type \<Rightarrow> val list \<Rightarrow> val list \<Rightarrow> val option \<Rightarrow> label_cleaner_obj"
  fit_transform_features ::
    "generator \<Rightarrow> frame \<Rightarrow> val list \<Rightarrow> problem_type \<Rightarrow> bool option \<Rightarrow> generator \<times> frame"

text \<open>
  Modelled from the spec: \<^verbatim>\<open>extract_label\<close> of the abstract learner, whose code is not in
  the sources at hand: it "extracts the label into a separate vector, leaving features in
  the frame".
\<close>

definition extract_label :: "learner \<Rightarrow> frame \<Rightarrow> error + (frame \<times> val list)" where
  "extract_label self X =
     (case getitem X (label self) of
        Inl e \<Rightarrow> Inl e
      | Inr y \<Rightarrow> Inr (drop_column X (label self), y))"

text \<open>
  Modelled from the spec: \<^verbatim>\<open>extract_column\<close> of \<^verbatim>\<open>autogluon.core.utils.utils\<close>, whose code
  is not in the sources at hand: a named column present in the data is "simply extracted";
  with no name, or no such column, there is nothing to extract.
\<close>

definition extract_column :: "frame \<Rightarrow> colname \<Rightarrow> frame \<times> val list option" where
  "extract_column X col_name =
     (case map_of (data X) col_name of
        None \<Rightarrow> (X, None)
      | Some vs \<Rightarrow> if col_name = None then (X, None) else (drop_column X col_name, Some vs))"

section \<open>Sample weights\<close>

text \<open>\<^verbatim>\<open>y.map(class_weights)\<close>: a label without a weight maps to NaN.\<close>

definition map_weights :: "(val \<times> rat) list \<Rightarrow> val list \<Rightarrow> val list" where
  "map_weights cw y = map (\<lambda>v. case map_of cw v of None \<Rightarrow> NaN | Some r \<Rightarrow> Num r) y"

text \<open>The dictionary of line 337: \<^verbatim>\<open>{c: n / (class_counts[c] * k) for c in class_counts.index}\<close>.\<close>

definition balance_weights :: "val list \<Rightarrow> (val \<times> rat) list" where
  "balance_weights y =
     (let class_counts = value_counts y;
          n = length y;
          k = length class_counts
      in map (\<lambda>(c, count). (c, of_nat n / (of_nat count * of_nat k))) class_counts)"

text \<open>\<^verbatim>\<open>set_predefined_weights\<close> (lines 325 to 344); it caches the class weights in \<^verbatim>\<open>self\<close>.\<close>

definition set_predefined_weights :: "learner \<Rightarrow> frame \<Rightarrow> val list \<Rightarrow> learner \<times> (error + frame)" where
  "set_predefined_weights self X y =
     (if (sample_weight self \<noteq> AUTO_WEIGHT \<and> sample_weight self \<noteq> BALANCE_WEIGHT)
         \<or> (problem_type self \<noteq> BINARY \<and> problem_type self \<noteq> MULTICLASS)
      then (self, Inr X)
      else if sample_weight self \<in> set (columns X)
      then (self, Inl (WeightColumnCollision (sample_weight self)))
      else if sample_weight self = BALANCE_WEIGHT
      then
        (let self = (case class_weights self of
                       None \<Rightarrow> self\<lparr>class_weights := Some (balance_weights y)\<rparr>
                     | Some cw \<Rightarrow> self);
             w = (case class_weights self of None \<Rightarrow> [] | Some cw \<Rightarrow> map_weights cw y)
         in (self, Inr (setitem X (sample_weight self) w)))
      else (self, Inl AutoWeightNotSupported))"

text \<open>
  \<^verbatim>\<open>bundle_weights\<close> (lines 306 to 323). Assigning into None raises TypeError. The marker
  for a missing weight is NaN.
\<close>

definition bundle_weights ::
  "learner \<Rightarrow> frame option \<Rightarrow> val list option \<Rightarrow> string \<Rightarrow> bool \<Rightarrow> error + frame option" where
  "bundle_weights self X w name is_train =
     (if is_train then
        (case w of
           None \<Rightarrow> Inr X
         | Some wv \<Rightarrow>
             (case X of
                None \<Rightarrow> Inl TypeError
              | Some X0 \<Rightarrow> Inr (Some (setitem X0 (sample_weight self) wv))))
      else
        (case X of
           None \<Rightarrow> Inr X
         | Some X0 \<Rightarrow>
             (case w of
                Some wv \<Rightarrow> Inr (Some (setitem X0 (sample_weight self) wv))
              | None \<Rightarrow>
                  if \<not> weight_evaluation self
                  then Inr (Some (setitem X0 (sample_weight self) (replicate (len X0) NaN)))
                  else Inl (MissingSampleWeight (sample_weight self) name))))"

section \<open>Validation of the labels\<close>

text \<open>
  The objects the caller holds live in a store; a variable holds None or the address of a
  frame. \<^verbatim>\<open>copy.deepcopy\<close> allocates a new object.
\<close>

type_synonym store = "frame list"

definition replace_inf :: "val list \<Rightarrow> val list" where
  "replace_inf vs = map (\<lambda>v. if v = PosInf \<or> v = NegInf then NaN else v) vs"

text \<open>
  \<^verbatim>\<open>_check_for_non_finite_values\<close> (lines 346 to 359) on the store. The series
  \<^verbatim>\<open>invalid_labels\<close> pairs each row key with the flag of its label; \<^verbatim>\<open>idxmax\<close> is the key
  of the first flagged row. Subscripting None raises TypeError.
\<close>

definition priv_check_for_non_finite_values ::
  "learner \<Rightarrow> store \<Rightarrow> nat option \<Rightarrow> string \<Rightarrow> bool \<Rightarrow> store \<times> (error + nat option)" where
  "priv_check_for_non_finite_values self st X name is_train =
     (if is_train \<or> (case X of None \<Rightarrow> False | Some a \<Rightarrow> label self \<in> set (columns (st ! a)))
      then
        (case X of
           None \<Rightarrow> (st, Inl TypeError)
         | Some a \<Rightarrow>
             let st = st @ [st ! a];
                 X = length st - 1
             in (case getitem (st ! X) (label self) of
                   Inl e \<Rightarrow> (st, Inl e)
                 | Inr col \<Rightarrow>
                     let st = st[X := setitem (st ! X) (label self) (replace_inf col)];
                         invalid_labels = zip (index (st ! X)) (map isna (replace_inf col))
                     in (case filter snd invalid_labels of
                           [] \<Rightarrow> (st, Inr (Some X))
                         | (first_invalid_label_idx, flag) # others \<Rightarrow>
                             (st, Inl (NonFiniteLabel name first_invalid_label_idx)))))
      else (st, Inr X))"

text \<open>The same on a frame that nothing else refers to: the frame that the check returns.\<close>

definition check_for_non_finite_values ::
  "learner \<Rightarrow> frame option \<Rightarrow> string \<Rightarrow> bool \<Rightarrow> error + frame option" where
  "check_for_non_finite_values self X name is_train =
     (case priv_check_for_non_finite_values self (case X of None \<Rightarrow> [] | Some X0 \<Rightarrow> [X0])
             (case X of None \<Rightarrow> None | Some X0 \<Rightarrow> Some 0) name is_train of
        (st, Inl e) \<Rightarrow> Inl e
      | (st, Inr None) \<Rightarrow> Inr None
      | (st, Inr (Some a)) \<Rightarrow> Inr (Some (st ! a)))"

section \<open>Cleaning a validation or test split\<close>

text \<open>
  Python's \<^verbatim>\<open>sorted\<close> raises TypeError when it compares a string with a number, or None
  with anything. A list of distinct cells sorts when it has at most one cell, or only
  strings, or only floats.
\<close>

definition sortable :: "val list \<Rightarrow> bool" where
  "sortable vs =
     (length vs \<le> 1
      \<or> list_all (\<lambda>v. case v of Str x \<Rightarrow> True | other \<Rightarrow> False) vs
      \<or> list_all (\<lambda>v. case v of Str x \<Rightarrow> False | NoneVal \<Rightarrow> False | other \<Rightarrow> True) vs)"

text \<open>
  \<^verbatim>\<open>_apply_cleaner_transform\<close> (lines 361 to 404). The warnings of lines 375 to 389 are
  not kept; what is kept of them is that the two calls of \<^verbatim>\<open>sorted\<close> can raise. Calling a
  method of a cleaner that is still None raises AttributeError.
\<close>

definition priv_apply_cleaner_transform ::
  "learner \<Rightarrow> frame option \<Rightarrow> val list \<Rightarrow> rat \<Rightarrow> rat \<Rightarrow> string \<Rightarrow> bool
     \<Rightarrow> learner \<times> (error + (frame option \<times> val list option \<times> val list option \<times> rat))" where
  "priv_apply_cleaner_transform self X y_uncleaned holdout_frac holdout_frac_og name is_test =
     (case X of
        None \<Rightarrow> (self, Inr (X, None, None, holdout_frac))
      | Some X0 \<Rightarrow>
          if label self \<notin> set (columns X0) then (self, Inr (X, None, None, holdout_frac))
          else
            (case getitem X0 (label self) of
               Inl e \<Rightarrow> (self, Inl e)
             | Inr y_og \<Rightarrow>
                 (case cleaner self of
                    None \<Rightarrow> (self, Inl AttributeError)
                  | Some cleaner_transform \<Rightarrow>
                      let X1 = cleaner_transform X0
                      in if is_test \<and> len X1 \<noteq> len X0
                         then (self, Inl (LowFrequencyClasses name))
                         else if len X1 = 0
                         then
                           (if (problem_type self = BINARY \<or> problem_type self = MULTICLASS)
                               \<and> \<not> (sortable (remdups y_uncleaned) \<and> sortable (remdups y_og))
                            then (self, Inl TypeError)
                            else (self, Inr (None, None, None, holdout_frac_og)))
                         else
                           (case extract_label self X1 of
                              Inl e \<Rightarrow> (self, Inl e)
                            | Inr (X2, y) \<Rightarrow>
                                (case label_cleaner self of
                                   None \<Rightarrow> (self, Inl AttributeError)
                                 | Some lc \<Rightarrow>
                                     let y = lc_transform lc y
                                     in (case set_predefined_weights self X2 y of
                                           (self, Inl e) \<Rightarrow> (self, Inl e)
                                         | (self, Inr X3) \<Rightarrow>
                                             let (X4, w) = extract_column X3 (sample_weight self)
                                             in (self, Inr (Some X4, Some y, w, holdout_frac))))))))"

section \<open>General data processing\<close>

text \<open>Line 259: the flag is a constant of the code.\<close>

definition transform_with_test :: bool where
  "transform_with_test = False"

text \<open>
  Lines 210 to 225: the holdout fraction is set to 1 when the validation frame has the
  label column, the threshold is forced when the metric needs probabilities on a
  multiclass problem, and the three values are adjusted on the training labels.
\<close>

definition gdp_threshold ::
  "collaborators \<Rightarrow> learner \<Rightarrow> frame \<Rightarrow> frame option \<Rightarrow> rat \<Rightarrow> int
     \<Rightarrow> learner \<times> (error + (frame \<times> rat \<times> int))" where
  "gdp_threshold env self X X_val holdout_frac num_bag_folds =
     (let holdout_frac =
            (if (case X_val of None \<Rightarrow> False | Some V \<Rightarrow> label self \<in> set (columns V))
             then 1 else holdout_frac);
          (self, X) =
            (if needs_proba self = Some True \<and> problem_type self = MULTICLASS
             then if num_bag_folds > 0
                  then (self\<lparr>threshold := 2\<rparr>,
                        if groups self = None then augment_rare_classes env X (label self) 2 else X)
                  else (self\<lparr>threshold := 1\<rparr>, X)
             else (self, X))
      in (case getitem X (label self) of
            Inl e \<Rightarrow> (self, Inl e)
          | Inr y \<Rightarrow>
              (case adjust_threshold_if_necessary (problem_type self) y (threshold self)
                      holdout_frac num_bag_folds of
                 Inl e \<Rightarrow> (self, Inl e)
               | Inr ((t, hf, nb), warnings) \<Rightarrow> (self\<lparr>threshold := t\<rparr>, Inr (X, hf, nb)))))"

text \<open>
  Lines 228 to 237: the training frame is cleaned, its label extracted and encoded, its
  weights set, and the weight and group columns extracted. The result is the frame, the
  labels, the weights, the groups and the labels before cleaning.
\<close>

definition gdp_clean_train ::
  "collaborators \<Rightarrow> learner \<Rightarrow> frame
     \<Rightarrow> learner \<times> (error + (frame \<times> val list \<times> val list option \<times> val list option \<times> val list))" where
  "gdp_clean_train env self X =
     (case getitem X (label self) of
        Inl e \<Rightarrow> (self, Inl e)
      | Inr y_uncleaned \<Rightarrow>
          let (fitted, X1) =
                Cleaner_fit_transform env (problem_type self) (label self) (threshold self) X;
              self = self\<lparr>cleaner := Some fitted\<rparr>
          in (case extract_label self X1 of
                Inl e \<Rightarrow> (self, Inl e)
              | Inr (X2, y) \<Rightarrow>
                  let lc = LabelCleaner_construct env (problem_type self) y y_uncleaned
                             (positive_class self);
                      self = self\<lparr>label_cleaner := Some lc\<rparr>;
                      y = lc_transform lc y
                  in (case set_predefined_weights self X2 y of
                        (self, Inl e) \<Rightarrow> (self, Inl e)
                      | (self, Inr X3) \<Rightarrow>
                          let (X4, w) = extract_column X3 (sample_weight self);
                              (X5, groups_col) = extract_column X4 (groups self)
                          in (self, Inr (X5, y, w, groups_col, y_uncleaned)))))"

text \<open>
  Lines 270 to 285: a generator that is fit transforms the concatenated frame; one that
  is not is fit on it, with the concatenated labels. The test frame is transformed on
  its own. The result is the transformed concatenation and the test frame.
\<close>

definition gdp_transform ::
  "collaborators \<Rightarrow> learner \<Rightarrow> frame \<Rightarrow> val list \<Rightarrow> val list option \<Rightarrow> val list option
     \<Rightarrow> frame option \<Rightarrow> frame option \<Rightarrow> learner \<times> (error + (frame \<times> frame option))" where
  "gdp_transform env self X_super y y_val y_test_super X_test X_unlabeled =
     (if is_fit (feature_generator self)
      then
        (let X_super = transform (feature_generator self) X_super;
             self = self\<lparr>generator_calls := generator_calls self @ [Call_transform]\<rparr>
         in (case X_test of
               Some T \<Rightarrow>
                 if \<not> transform_with_test
                 then (self\<lparr>generator_calls := generator_calls self @ [Call_transform]\<rparr>,
                       Inr (X_super, Some (transform (feature_generator self) T)))
                 else (self, Inr (X_super, X_test))
             | None \<Rightarrow> (self, Inr (X_super, X_test))))
      else
        (let y_unlabeled =
               (case X_unlabeled of None \<Rightarrow> None | Some U \<Rightarrow> Some (replicate (len U) NaN));
             y_list = [Some y, y_val, y_test_super, y_unlabeled]
         in (case pd_concat_series y_list of
               Inl e \<Rightarrow> (self, Inl e)
             | Inr y_super \<Rightarrow>
                 (case label_cleaner self of
                    None \<Rightarrow> (self, Inl AttributeError)
                  | Some lc \<Rightarrow>
                      let (fitted, X_super) =
                            fit_transform_features env (feature_generator self) X_super y_super
                              (problem_type_transform lc) (needs_proba self);
                          self = self\<lparr>feature_generator := fitted,
                                      generator_calls := generator_calls self @ [Call_fit_transform]\<rparr>
                      in (case X_test of
                            Some T \<Rightarrow>
                              if \<not> transform_with_test
                              then (self\<lparr>generator_calls := generator_calls self @ [Call_transform]\<rparr>,
                                    Inr (X_super, Some (transform (feature_generator self) T)))
                              else (self, Inr (X_super, X_test))
                          | None \<Rightarrow> (self, Inr (X_super, X_test)))))))"

text \<open>
  The loop of lines 287 to 292: each frame that is present takes its rows back from the
  transformed concatenation, in order, with its own row keys.
\<close>

fun resplit :: "frame \<Rightarrow> nat \<Rightarrow> frame option list \<Rightarrow> error + frame option list" where
  "resplit X_super idx [] = Inr []"
| "resplit X_super idx (None # datasets) =
     (case resplit X_super idx datasets of
        Inl e \<Rightarrow> Inl e
      | Inr rest \<Rightarrow> Inr (None # rest))"
| "resplit X_super idx (Some d # datasets) =
     (case set_index (iloc X_super idx (idx + len d)) (index d) of
        Inl e \<Rightarrow> Inl e
      | Inr d' \<Rightarrow>
          (case resplit X_super (idx + len d) datasets of
             Inl e \<Rightarrow> Inl e
           | Inr rest \<Rightarrow> Inr (Some d' # rest)))"

text \<open>
  Lines 248 to 298: the frames are concatenated, transformed and split again. The result
  is the list of the four frames and the test frame.
\<close>

definition gdp_features ::
  "collaborators \<Rightarrow> learner \<Rightarrow> frame \<Rightarrow> val list \<Rightarrow> frame option \<Rightarrow> val list option
     \<Rightarrow> frame option \<Rightarrow> val list option \<Rightarrow> frame option
     \<Rightarrow> learner \<times> (error + (frame option list \<times> frame option))" where
  "gdp_features env self X y X_val y_val X_test y_test X_unlabeled =
     (let self = self\<lparr>original_features := Some (columns X)\<rparr>;
          X_test_super = (if transform_with_test then X_test else None);
          y_test_super = (if transform_with_test then y_test else None);
          datasets = [Some X, X_val, X_test_super, X_unlabeled]
      in (case pd_concat datasets of
            Inl e \<Rightarrow> (self, Inl e)
          | Inr X_super \<Rightarrow>
              (case gdp_transform env self X_super y y_val y_test_super X_test X_unlabeled of
                 (self, Inl e) \<Rightarrow> (self, Inl e)
               | (self, Inr (X_super, X_test)) \<Rightarrow>
                   (case resplit X_super 0 datasets of
                      Inl e \<Rightarrow> (self, Inl e)
                    | Inr datasets \<Rightarrow>
                        (self, Inr (datasets,
                                    if transform_with_test then datasets ! 2 else X_test))))))"

text \<open>What \<^verbatim>\<open>general_data_processing\<close> returns (line 304).\<close>

record outputs =
  out_X :: "frame option"
  out_y :: "val list"
  out_X_val :: "frame option"
  out_y_val :: "val list option"
  out_X_test :: "frame option"
  out_y_test :: "val list option"
  out_X_unlabeled :: "frame option"
  out_holdout_frac :: rat
  out_num_bag_folds :: int
  out_groups :: "val list option"

text \<open>
  \<^verbatim>\<open>general_data_processing\<close> (lines 200 to 304). The state of the learner is returned
  also when the call raises: what was written to \<^verbatim>\<open>self\<close> before the raise stays.
\<close>

definition general_data_processing ::
  "collaborators \<Rightarrow> learner \<Rightarrow> frame \<Rightarrow> frame option \<Rightarrow> frame option \<Rightarrow> frame option
     \<Rightarrow> rat \<Rightarrow> int \<Rightarrow> learner \<times> (error + outputs)" where
  "general_data_processing env self X X_val X_test X_unlabeled holdout_frac num_bag_folds =
     (case check_for_non_finite_values self (Some X) ''train'' True of
        Inl e \<Rightarrow> (self, Inl e)
      | Inr None \<Rightarrow> (self, Inl TypeError)
      | Inr (Some X) \<Rightarrow>
     (case (case X_val of None \<Rightarrow> Inr None
            | Some V \<Rightarrow> check_for_non_finite_values self X_val ''val'' False) of
        Inl e \<Rightarrow> (self, Inl e)
      | Inr X_val \<Rightarrow>
     (case (case X_test of None \<Rightarrow> Inr None
            | Some T \<Rightarrow> check_for_non_finite_values self X_test ''test'' False) of
        Inl e \<Rightarrow> (self, Inl e)
      | Inr X_test \<Rightarrow>
     (let holdout_frac_og = holdout_frac
      in
     (case gdp_threshold env self X X_val holdout_frac num_bag_folds of
        (self, Inl e) \<Rightarrow> (self, Inl e)
      | (self, Inr (X, holdout_frac, num_bag_folds)) \<Rightarrow>
     (case gdp_clean_train env self X of
        (self, Inl e) \<Rightarrow> (self, Inl e)
      | (self, Inr (X, y, w, groups_col, y_uncleaned)) \<Rightarrow>
     (case priv_apply_cleaner_transform self X_val y_uncleaned holdout_frac holdout_frac_og
             ''val'' False of
        (self, Inl e) \<Rightarrow> (self, Inl e)
      | (self, Inr (X_val, y_val, w_val, holdout_frac)) \<Rightarrow>
     (case priv_apply_cleaner_transform self X_test y_uncleaned holdout_frac holdout_frac_og
             ''test'' True of
        (self, Inl e) \<Rightarrow> (self, Inl e)
      | (self, Inr (X_test, y_test, w_test, unused)) \<Rightarrow>
     (case gdp_features env self X y X_val y_val X_test y_test X_unlabeled of
        (self, Inl e) \<Rightarrow> (self, Inl e)
      | (self, Inr (datasets, X_test)) \<Rightarrow>
     (case datasets of
        [X, X_val, X_test_super, X_unlabeled] \<Rightarrow>
          (case bundle_weights self X w ''X'' True of
             Inl e \<Rightarrow> (self, Inl e)
           | Inr X \<Rightarrow>
          (case bundle_weights self X_val w_val ''X_val'' False of
             Inl e \<Rightarrow> (self, Inl e)
           | Inr X_val \<Rightarrow>
          (case bundle_weights self X_test w_test ''X_test'' False of
             Inl e \<Rightarrow> (self, Inl e)
           | Inr X_test \<Rightarrow>
               (self, Inr \<lparr>out_X = X, out_y = y, out_X_val = X_val, out_y_val = y_val,
                           out_X_test = X_test, out_y_test = y_test,
                           out_X_unlabeled = X_unlabeled, out_holdout_frac = holdout_frac,
                           out_num_bag_folds = num_bag_folds, out_groups = groups_col\<rparr>))))
      | others \<Rightarrow> (self, Inl LengthMismatch)))))))))))"

section \<open>Vocabulary of the properties\<close>

text \<open>A label that is NaN, None or an infinity.\<close>

definition non_finite :: "val \<Rightarrow> bool" where
  "non_finite v = (v = NaN \<or> v = NoneVal \<or> v = PosInf \<or> v = NegInf)"

text \<open>A frame has one cell per row in each column.\<close>

definition wf_frame :: "frame \<Rightarrow> bool" where
  "wf_frame X = list_all (\<lambda>p. length (snd p) = len X) (data X)"

text \<open>
  The position, in the concatenation, of the first row of the \<open>i\<close>-th frame: the number
  of rows of the frames that are present before it.
\<close>

definition offset :: "frame option list \<Rightarrow> nat \<Rightarrow> nat" where
  "offset datasets i = sum_list (map len (drop_none (take i datasets)))"

text \<open>
  The training frame whose labels the thresholds are adjusted on (lines 214 to 224): the
  frame with its rare classes augmented when the metric needs probabilities on a multiclass
  problem with bagging and no groups.
\<close>

definition threshold_frame :: "collaborators \<Rightarrow> learner \<Rightarrow> frame \<Rightarrow> int \<Rightarrow> frame" where
  "threshold_frame env self X num_bag_folds =
     (if needs_proba self = Some True \<and> problem_type self = MULTICLASS
         \<and> num_bag_folds > 0 \<and> groups self = None
      then augment_rare_classes env X (label self) 2 else X)"

text \<open>
  \<^verbatim>\<open>set_predefined_weights\<close> can no longer write the class weights: they are there, or
  the balance strategy does not apply.
\<close>

definition weights_settled :: "learner \<Rightarrow> bool" where
  "weights_settled s =
     (class_weights s \<noteq> None
      \<or> sample_weight s \<noteq> BALANCE_WEIGHT
      \<or> (problem_type s \<noteq> BINARY \<and> problem_type s \<noteq> MULTICLASS))"

text \<open>
  What a call may do to the feature generator: one that is fit is kept and only
  transforms; one that is not is either left alone or fit once, and then transforms.
\<close>

definition generator_step :: "collaborators \<Rightarrow> learner \<Rightarrow> learner \<Rightarrow> bool" where
  "generator_step env s s' =
     (if is_fit (feature_generator s)
      then feature_generator s' = feature_generator s
           \<and> (\<exists>k. generator_calls s' = generator_calls s @ replicate k Call_transform)
      else (feature_generator s' = feature_generator s \<and> generator_calls s' = generator_calls s)
           \<or> ((\<exists>F ys pt np. feature_generator s'
                   = fst (fit_transform_features env (feature_generator s) F ys pt np))
              \<and> (\<exists>k. generator_calls s'
                   = generator_calls s @ Call_fit_transform # replicate k Call_transform)))"

text \<open>
  The number of fits in the life of a learner, and a life: the calls of
  \<^verbatim>\<open>general_data_processing\<close> one after the other, each on the state the one before left,
  whether it returned or raised.
\<close>

definition fit_count :: "learner \<Rightarrow> nat" where
  "fit_count s = count_list (generator_calls s) Call_fit_transform"

fun process_all ::
  "collaborators \<Rightarrow> learner
     \<Rightarrow> (frame \<times> frame option \<times> frame option \<times> frame option \<times> rat \<times> int) list \<Rightarrow> learner" where
  "process_all env self [] = self"
| "process_all env self ((X, X_val, X_test, X_unlabeled, holdout_frac, num_bag_folds) # calls) =
     process_all env
       (fst (general_data_processing env self X X_val X_test X_unlabeled holdout_frac
               num_bag_folds))
       calls"

section \<open>Example inputs\<close>

text \<open>
  A learner on the label column \<open>y\<close> with balance weights, a training frame of three rows
  and a validation frame of two, and collaborators that leave the data as it is.
\<close>

definition example_learner :: learner where
  "example_learner =
     \<lparr>label = Some ''y'', problem_type = MULTICLASS, needs_proba = None, groups = None,
      sample_weight = BALANCE_WEIGHT, weight_evaluation = False, positive_class = None,
      threshold = 1, class_weights = None, cleaner = None, label_cleaner = None,
      feature_generator = \<lparr>is_fit = False, transform = (\<lambda>F. F)\<rparr>,
      original_features = None, generator_calls = []\<rparr>"

definition example_train :: frame where
  "example_train =
     \<lparr>index = [Str ''r1'', Str ''r2'', Str ''r3''],
      data = [(Some ''f'', [Num 1, Num 2, Num 3]),
              (Some ''y'', [Str ''a'', Str ''b'', Str ''a''])]\<rparr>"

definition example_val :: frame where
  "example_val =
     \<lparr>index = [Num 10, Num 11],
      data = [(Some ''f'', [Num 5, Num 6]), (Some ''y'', [Str ''a'', Str ''b''])]\<rparr>"

definition example_env :: collaborators where
  "example_env =
     \<lparr>augment_rare_classes = (\<lambda>X c t. X),
      Cleaner_fit_transform = (\<lambda>pt c t X. ((\<lambda>F. F), X)),
      LabelCleaner_construct =
        (\<lambda>pt y yu pc. \<lparr>lc_transform = (\<lambda>y. y), problem_type_transform = pt\<rparr>),
      fit_transform_features = (\<lambda>g X y pt np. (\<lparr>is_fit = True, transform = (\<lambda>F. F)\<rparr>, X))\<rparr>"

section \<open>Properties of the threshold adjustment\<close>

lemma class_counts_sorted: "sorted_wrt (\<lambda>a b. a \<ge> b) (class_counts_of y)"
proof -
  have "sorted (map (\<lambda>p. - int (snd p)) (value_counts y))"
    unfolding value_counts_def Let_def by (rule sorted_sort_key)
  then show ?thesis
    unfolding class_counts_of_def by (simp add: sorted_map sorted_wrt_map)
qed

lemma count_list_pos: "x \<in> set xs \<Longrightarrow> 0 < count_list xs x"
  by (metis count_list_0_iff gr0I)

lemma class_counts_pos: "c \<in> set (class_counts_of y) \<Longrightarrow> c \<ge> 1"
  unfolding class_counts_of_def value_counts_def Let_def
  by (auto simp: Suc_le_eq intro!: count_list_pos)

lemma class_counts_nonneg: "\<forall>c \<in> set (class_counts_of y). c \<ge> 0"
  using class_counts_pos by force

lemma minimum_rows_le: "0 \<le> n \<Longrightarrow> \<lceil>of_int n * minimum_percent_to_keep\<rceil> \<le> n"
  unfolding minimum_percent_to_keep_def
  by (simp add: ceiling_le_iff mult_left_le)

lemma sum_filter_le: "\<forall>c \<in> set cs. (0::int) \<le> c \<Longrightarrow> sum_list (filter P cs) \<le> sum_list cs"
  by (induction cs) auto

lemma filter_take_sorted:
  "sorted_wrt (\<lambda>a b. a \<ge> b) (cs :: int list) \<Longrightarrow> 0 < j \<Longrightarrow> j \<le> length cs \<Longrightarrow>
   filter (\<lambda>c. c \<ge> cs ! (j - 1)) cs = take j cs @ filter (\<lambda>c. c \<ge> cs ! (j - 1)) (drop j cs)"
proof -
  assume s: "sorted_wrt (\<lambda>a b. a \<ge> b) cs" and j: "0 < j" "j \<le> length cs"
  have "\<forall>c \<in> set (take j cs). c \<ge> cs ! (j - 1)"
  proof
    fix c assume "c \<in> set (take j cs)"
    then obtain i where i: "i < j" "c = cs ! i"
      using j by (auto simp: in_set_conv_nth)
    show "c \<ge> cs ! (j - 1)"
    proof (cases "i = j - 1")
      case True then show ?thesis using i by simp
    next
      case False
      then have "i < j - 1" using i by simp
      then show ?thesis using sorted_wrt_nth_less[OF s, of i "j - 1"] j i by simp
    qed
  qed
  then have "filter (\<lambda>c. c \<ge> cs ! (j - 1)) (take j cs) = take j cs"
    by (simp add: filter_id_conv)
  then show ?thesis
    by (metis append_take_drop_id filter_append)
qed

lemma accumulate_classes_char:
  "accumulate_classes m k r thr cs = res \<Longrightarrow>
   (\<exists>j. 0 < j \<and> j \<le> length cs \<and> res = Some (cs ! (j - 1))
        \<and> r + sum_list (take j cs) \<ge> m \<and> k + int j \<ge> 2)
   \<or> (res = (if cs = [] then thr else Some (last cs))
       \<and> (cs \<noteq> [] \<longrightarrow> \<not> (r + sum_list cs \<ge> m \<and> k + int (length cs) \<ge> 2)))"
proof (induction cs arbitrary: k r thr)
  case Nil
  then show ?case by simp
next
  case (Cons c cs)
  show ?case
  proof (cases "r + c \<ge> m \<and> k + 1 \<ge> minimum_class_to_keep")
    case True
    then have "res = Some c" using Cons.prems by simp
    then have "0 < (1::nat) \<and> 1 \<le> length (c # cs) \<and> res = Some ((c # cs) ! (1 - 1))
        \<and> r + sum_list (take 1 (c # cs)) \<ge> m \<and> k + int 1 \<ge> 2"
      using True by (simp add: minimum_class_to_keep_def)
    then show ?thesis by blast
  next
    case False
    then have rec: "accumulate_classes m (k + 1) (r + c) (Some c) cs = res"
      using Cons.prems by auto
    from Cons.IH[OF rec] show ?thesis
    proof
      assume "\<exists>j. 0 < j \<and> j \<le> length cs \<and> res = Some (cs ! (j - 1))
        \<and> r + c + sum_list (take j cs) \<ge> m \<and> k + 1 + int j \<ge> 2"
      then obtain j where j: "0 < j" "j \<le> length cs" "res = Some (cs ! (j - 1))"
        "r + c + sum_list (take j cs) \<ge> m" "k + 1 + int j \<ge> 2" by blast
      have "0 < Suc j \<and> Suc j \<le> length (c # cs) \<and> res = Some ((c # cs) ! (Suc j - 1))
        \<and> r + sum_list (take (Suc j) (c # cs)) \<ge> m \<and> k + int (Suc j) \<ge> 2"
        using j by (cases j) (auto simp: algebra_simps)
      then show ?thesis by blast
    next
      assume a: "res = (if cs = [] then Some c else Some (last cs))
       \<and> (cs \<noteq> [] \<longrightarrow> \<not> (r + c + sum_list cs \<ge> m \<and> k + 1 + int (length cs) \<ge> 2))"
      have "res = (if c # cs = [] then thr else Some (last (c # cs)))" using a by simp
      moreover have "\<not> (r + sum_list (c # cs) \<ge> m \<and> k + int (length (c # cs)) \<ge> 2)"
        using a False by (cases "cs = []") (auto simp: minimum_class_to_keep_def algebra_simps)
      ultimately show ?thesis by blast
    qed
  qed
qed

lemma accumulate_classes_above:
  "0 < j \<Longrightarrow> j \<le> length cs \<Longrightarrow> \<forall>c \<in> set (take j cs). t \<le> c \<Longrightarrow>
   r + sum_list (take j cs) \<ge> m \<Longrightarrow> k + int j \<ge> 2 \<Longrightarrow>
   \<exists>g. accumulate_classes m k r thr cs = Some g \<and> t \<le> g"
proof (induction cs arbitrary: k r thr j)
  case Nil
  then show ?case by simp
next
  case (Cons c cs)
  from Cons.prems have ct: "t \<le> c" by (cases j) auto
  show ?case
  proof (cases "r + c \<ge> m \<and> k + 1 \<ge> minimum_class_to_keep")
    case True
    then show ?thesis using ct by simp
  next
    case False
    obtain j' where j': "j = Suc j'" using Cons.prems(1) by (cases j) auto
    have "j' \<noteq> 0"
    proof
      assume "j' = 0"
      then have "r + c \<ge> m \<and> k + 1 \<ge> 2" using Cons.prems j' by simp
      then show False using False by (simp add: minimum_class_to_keep_def)
    qed
    then have p: "0 < j'" "j' \<le> length cs" "\<forall>c \<in> set (take j' cs). t \<le> c"
      "(r + c) + sum_list (take j' cs) \<ge> m" "(k + 1) + int j' \<ge> 2"
      using Cons.prems j' by (auto simp: algebra_simps)
    from Cons.IH[OF p, of "Some c"] show ?thesis using False ct by simp
  qed
qed

lemma filter_is_take:
  "sorted_wrt (\<lambda>a b. a \<ge> b) cs \<Longrightarrow>
   filter (\<lambda>c. (t::int) \<le> c) cs = take (length (filter (\<lambda>c. t \<le> c) cs)) cs"
proof (induction cs)
  case Nil
  then show ?case by simp
next
  case (Cons c cs)
  show ?case
  proof (cases "t \<le> c")
    case True
    then show ?thesis using Cons by simp
  next
    case False
    then have "\<forall>x \<in> set cs. \<not> t \<le> x" using Cons.prems by auto
    then have "filter (\<lambda>c. t \<le> c) cs = []" by (simp add: filter_empty_conv)
    then show ?thesis using False by simp
  qed
qed


lemma priv_adjust_threshold_classification:
  assumes "y \<noteq> []" and "ptype = BINARY \<or> ptype = MULTICLASS"
  shows "priv_adjust_threshold_if_necessary ptype y requested holdout_frac num_bag_folds =
     Inr (if keeps_enough y (safe_threshold y requested num_bag_folds)
          then Some (safe_threshold y requested num_bag_folds)
          else accumulate_classes
                 \<lceil>of_int (sum_list (class_counts_of y)) * minimum_percent_to_keep\<rceil> 0 0 None
                 (class_counts_of y),
          max holdout_frac (1 / of_int (int (length y)) + 1 / 1000),
          min num_bag_folds (int (length y)))"
  using assms
  unfolding priv_adjust_threshold_if_necessary_def keeps_enough_def rows_kept_def
    classes_kept_def class_counts_of_def safe_threshold_def minimum_class_to_keep_def Let_def
  by auto

lemma length_class_counts:
  "length (class_counts_of y) = length (remdups (filter (\<lambda>v. \<not> isna v) y))"
  by (simp add: class_counts_of_def value_counts_def Let_def)

lemma class_counts_empty_iff: "class_counts_of y = [] \<longleftrightarrow> list_all isna y"
proof -
  have "class_counts_of y = [] \<longleftrightarrow> remdups (filter (\<lambda>v. \<not> isna v) y) = []"
    using length_class_counts[of y] by (metis length_0_conv)
  then show ?thesis
    by (simp add: list_all_iff filter_empty_conv)
qed

lemma total_rows_nonneg: "0 \<le> sum_list (class_counts_of y)"
  using class_counts_nonneg by (simp add: sum_list_nonneg)

lemma classes_kept_le: "classes_kept y t \<le> int (length (class_counts_of y))"
  unfolding classes_kept_def by simp

lemma accumulate_top:
  defines "G y \<equiv> accumulate_classes
      \<lceil>of_int (sum_list (class_counts_of y)) * minimum_percent_to_keep\<rceil> 0 0 None (class_counts_of y)"
  shows "(\<exists>g. G y = Some g \<and> keeps_enough y g)
       \<or> ((\<forall>t. \<not> keeps_enough y t) \<and> G y = last_class_count y)"
proof -
  let ?cs = "class_counts_of y"
  let ?m = "\<lceil>of_int (sum_list ?cs) * minimum_percent_to_keep\<rceil>"
  from accumulate_classes_char[of ?m 0 0 None ?cs "G y"]
  consider (brk) j where "0 < j" "j \<le> length ?cs" "G y = Some (?cs ! (j - 1))"
      "sum_list (take j ?cs) \<ge> ?m" "int j \<ge> 2"
    | (nobrk) "G y = (if ?cs = [] then None else Some (last ?cs))"
      "?cs \<noteq> [] \<longrightarrow> \<not> (sum_list ?cs \<ge> ?m \<and> int (length ?cs) \<ge> 2)"
    unfolding G_def by auto
  then show ?thesis
  proof cases
    case brk
    let ?g = "?cs ! (j - 1)"
    have split: "filter (\<lambda>c. c \<ge> ?g) ?cs = take j ?cs @ filter (\<lambda>c. c \<ge> ?g) (drop j ?cs)"
      using filter_take_sorted[OF class_counts_sorted brk(1,2)] .
    have "\<forall>c \<in> set (filter (\<lambda>c. c \<ge> ?g) (drop j ?cs)). 0 \<le> c"
      using class_counts_nonneg[of y] by (auto dest: in_set_dropD)
    then have "0 \<le> sum_list (filter (\<lambda>c. c \<ge> ?g) (drop j ?cs))"
      by (intro sum_list_nonneg) blast
    then have rows: "rows_kept y ?g \<ge> ?m"
      unfolding rows_kept_def using split brk(4) by simp
    have "classes_kept y ?g \<ge> int j"
      unfolding classes_kept_def using split brk(2) by simp
    then have "keeps_enough y ?g"
      unfolding keeps_enough_def using rows brk(5) by simp
    then show ?thesis using brk(3) by blast
  next
    case nobrk
    have tot: "sum_list ?cs \<ge> ?m" using minimum_rows_le[OF total_rows_nonneg] .
    have len: "int (length ?cs) < 2"
    proof (cases "?cs = []")
      case True then show ?thesis by simp
    next
      case False then show ?thesis using nobrk(2) tot by auto
    qed
    have none: "\<forall>t. \<not> keeps_enough y t"
      unfolding keeps_enough_def using classes_kept_le[of y] len by (smt (verit))
    have "G y = last_class_count y"
      using nobrk(1) unfolding last_class_count_def by (cases ?cs) auto
    then show ?thesis using none by blast
  qed
qed

lemma keeps_enough_accumulate_ge:
  assumes "keeps_enough y t"
  shows "\<exists>g. accumulate_classes
      \<lceil>of_int (sum_list (class_counts_of y)) * minimum_percent_to_keep\<rceil> 0 0 None (class_counts_of y)
       = Some g \<and> t \<le> g"
proof -
  let ?cs = "class_counts_of y"
  let ?m = "\<lceil>of_int (sum_list ?cs) * minimum_percent_to_keep\<rceil>"
  let ?j = "length (filter (\<lambda>c. t \<le> c) ?cs)"
  have tk: "filter (\<lambda>c. t \<le> c) ?cs = take ?j ?cs"
    using filter_is_take[OF class_counts_sorted] .
  have j2: "int ?j \<ge> 2" using assms unfolding keeps_enough_def classes_kept_def by simp
  have jl: "?j \<le> length ?cs" by simp
  have ab: "\<forall>c \<in> set (take ?j ?cs). t \<le> c"
  proof -
    have "\<forall>c \<in> set (filter (\<lambda>c. t \<le> c) ?cs). t \<le> c" by simp
    then show ?thesis using tk by simp
  qed
  have "sum_list (filter (\<lambda>c. t \<le> c) ?cs) \<ge> ?m"
    using assms unfolding keeps_enough_def rows_kept_def by simp
  then have sm: "0 + sum_list (take ?j ?cs) \<ge> ?m" using tk by simp
  have "0 < ?j" using j2 by linarith
  from accumulate_classes_above[OF this jl ab sm, of 0 None] j2 show ?thesis by simp
qed

lemma sum_filter_mono:
  "\<forall>c \<in> set cs. (0::int) \<le> c \<Longrightarrow> (\<And>c. P c \<Longrightarrow> Q c) \<Longrightarrow>
   sum_list (filter P cs) \<le> sum_list (filter Q cs)"
  by (induction cs) auto

lemma length_filter_mono:
  "(\<And>c. P c \<Longrightarrow> Q c) \<Longrightarrow> length (filter P cs) \<le> length (filter Q cs)"
  by (induction cs) auto

lemma keeps_enough_antimono:
  assumes "t1 \<le> t2" and "keeps_enough y t2"
  shows "keeps_enough y t1"
proof -
  have "rows_kept y t2 \<le> rows_kept y t1"
    unfolding rows_kept_def using assms(1) class_counts_nonneg[of y]
    by (intro sum_filter_mono) auto
  moreover have "classes_kept y t2 \<le> classes_kept y t1"
    unfolding classes_kept_def using assms(1)
    by (simp add: length_filter_mono)
  ultimately show ?thesis using assms(2) unfolding keeps_enough_def by linarith
qed

lemma safe_threshold_mono: "t1 \<le> t2 \<Longrightarrow> safe_threshold y t1 n \<le> safe_threshold y t2 n"
  unfolding safe_threshold_def Let_def by auto

text \<open>
  Claim C1. On a binary or multiclass problem and a non-empty label series, the threshold
  returned by \<^verbatim>\<open>_adjust_threshold_if_necessary\<close> keeps, among the classes whose count
  reaches it, at least \<open>\<lceil>0.975 * total_rows\<rceil>\<close> rows and at least 2 classes; or no
  threshold does both, and the returned threshold is the count of the last class of the
  descending count table (there is none, and the result is None, when every label is
  missing). Raising the requested threshold, everything else fixed, never lowers the
  returned one.
\<close>

theorem adjust_threshold_retains_enough_and_is_monotone:
  assumes "y \<noteq> []" and "ptype = BINARY \<or> ptype = MULTICLASS" and "t1 \<le> t2"
  shows "\<exists>thr1 thr2 hf nb.
      priv_adjust_threshold_if_necessary ptype y t1 holdout_frac num_bag_folds = Inr (thr1, hf, nb)
    \<and> ((\<exists>t. thr1 = Some t \<and> keeps_enough y t)
        \<or> ((\<forall>t. \<not> keeps_enough y t) \<and> thr1 = last_class_count y))
    \<and> priv_adjust_threshold_if_necessary ptype y t2 holdout_frac num_bag_folds = Inr (thr2, hf, nb)
    \<and> threshold_le thr1 thr2"
proof -
  let ?G = "accumulate_classes
      \<lceil>of_int (sum_list (class_counts_of y)) * minimum_percent_to_keep\<rceil> 0 0 None (class_counts_of y)"
  let ?s1 = "safe_threshold y t1 num_bag_folds"
  let ?s2 = "safe_threshold y t2 num_bag_folds"
  let ?thr1 = "if keeps_enough y ?s1 then Some ?s1 else ?G"
  let ?thr2 = "if keeps_enough y ?s2 then Some ?s2 else ?G"
  let ?hf = "max holdout_frac (1 / of_int (int (length y)) + 1 / 1000)"
  let ?nb = "min num_bag_folds (int (length y))"
  have r1: "priv_adjust_threshold_if_necessary ptype y t1 holdout_frac num_bag_folds
      = Inr (?thr1, ?hf, ?nb)"
    using priv_adjust_threshold_classification[OF assms(1,2)] .
  have r2: "priv_adjust_threshold_if_necessary ptype y t2 holdout_frac num_bag_folds
      = Inr (?thr2, ?hf, ?nb)"
    using priv_adjust_threshold_classification[OF assms(1,2)] .
  have s12: "?s1 \<le> ?s2" using safe_threshold_mono[OF assms(3)] .
  have part1: "(\<exists>t. ?thr1 = Some t \<and> keeps_enough y t)
        \<or> ((\<forall>t. \<not> keeps_enough y t) \<and> ?thr1 = last_class_count y)"
  proof (cases "keeps_enough y ?s1")
    case True then show ?thesis by simp
  next
    case False then show ?thesis using accumulate_top[of y] by simp
  qed
  have part2: "threshold_le ?thr1 ?thr2"
  proof (cases "keeps_enough y ?s2")
    case True
    then have "keeps_enough y ?s1" using keeps_enough_antimono[OF s12] by simp
    then show ?thesis using True s12 by (simp add: threshold_le_def)
  next
    case k2: False
    show ?thesis
    proof (cases "keeps_enough y ?s1")
      case True
      then obtain g where "?G = Some g" "?s1 \<le> g"
        using keeps_enough_accumulate_ge by blast
      then show ?thesis using True k2 by (simp add: threshold_le_def)
    next
      case False
      then show ?thesis using k2 by (cases ?G) (simp_all add: threshold_le_def)
    qed
  qed
  show ?thesis using r1 r2 part1 part2 by blast
qed

theorem adjust_threshold_retains_enough_and_is_monotone_witness:
  "\<exists>thr1 thr2 hf nb.
      priv_adjust_threshold_if_necessary MULTICLASS
        [Str ''a'', Str ''b'', Str ''a'', Str ''c'', Str ''a''] 1 (1 / 10) 0 = Inr (thr1, hf, nb)
    \<and> ((\<exists>t. thr1 = Some t \<and> keeps_enough [Str ''a'', Str ''b'', Str ''a'', Str ''c'', Str ''a''] t)
        \<or> ((\<forall>t. \<not> keeps_enough [Str ''a'', Str ''b'', Str ''a'', Str ''c'', Str ''a''] t)
            \<and> thr1 = last_class_count [Str ''a'', Str ''b'', Str ''a'', Str ''c'', Str ''a'']))
    \<and> priv_adjust_threshold_if_necessary MULTICLASS
        [Str ''a'', Str ''b'', Str ''a'', Str ''c'', Str ''a''] 2 (1 / 10) 0 = Inr (thr2, hf, nb)
    \<and> threshold_le thr1 thr2"
  by (rule adjust_threshold_retains_enough_and_is_monotone) simp_all

text \<open>
  Claim C2, as the code has it. With class counts 100, 50 and 1, a requested threshold
  of 1 and no bagging, the threshold 1 already keeps all 151 rows and 3 classes, so
  \<^verbatim>\<open>_adjust_threshold_if_necessary\<close> returns 1: the class with one row is retained.
\<close>

theorem adjust_threshold_counts_100_50_1:
  assumes "class_counts_of y = [100, 50, 1]" and "ptype = BINARY \<or> ptype = MULTICLASS"
  shows "priv_adjust_threshold_if_necessary ptype y 1 holdout_frac 0
         = Inr (Some 1, max holdout_frac (1 / of_int (int (length y)) + 1 / 1000), 0)"
proof -
  have ne: "y \<noteq> []"
    using assms(1) by (auto simp: class_counts_of_def value_counts_def)
  have st: "safe_threshold y 1 0 = 1"
    by (simp add: safe_threshold_def)
  have "keeps_enough y 1"
    unfolding keeps_enough_def rows_kept_def classes_kept_def assms(1) minimum_percent_to_keep_def
    by simp
  then show ?thesis
    using priv_adjust_threshold_classification[OF ne assms(2), of 1 holdout_frac 0] st by simp
qed

lemma class_counts_100_50_1:
  "class_counts_of (replicate 100 (Str ''a'') @ replicate 50 (Str ''b'') @ [Str ''c''])
   = [100, 50, 1]"
  by code_simp

theorem adjust_threshold_counts_100_50_1_witness:
  "priv_adjust_threshold_if_necessary MULTICLASS
     (replicate 100 (Str ''a'') @ replicate 50 (Str ''b'') @ [Str ''c'']) 1 (1 / 10) 0
   = Inr (Some 1, 1 / 10, 0)"
  using adjust_threshold_counts_100_50_1[OF class_counts_100_50_1, of MULTICLASS "1 / 10"]
  by simp

theorem adjust_threshold_counts_100_50_1_counterexample:
  "returned_threshold
     (priv_adjust_threshold_if_necessary MULTICLASS
        (replicate 100 (Str ''a'') @ replicate 50 (Str ''b'') @ [Str ''c'']) 1 (1 / 10) 0)
   \<noteq> Some 50"
  by code_simp

text \<open>
  Claim C9, as the code has it. \<^verbatim>\<open>adjust_threshold_if_necessary\<close> returns its triple, with
  the warnings it logged, on every non-empty label series that holds a label which is not
  missing, and on every non-empty series when the problem is a regression or quantile one.
  (On an empty series \<^verbatim>\<open>1 / num_rows\<close> raises.)
\<close>

theorem adjust_threshold_returns:
  assumes "y \<noteq> []"
    and "ptype = REGRESSION \<or> ptype = QUANTILE \<or> \<not> list_all isna y"
  shows "\<exists>t hf nb ws.
      adjust_threshold_if_necessary ptype y requested holdout_frac num_bag_folds
        = Inr ((t, hf, nb), ws)
    \<and> priv_adjust_threshold_if_necessary ptype y requested holdout_frac num_bag_folds
        = Inr (Some t, hf, nb)"
proof (cases "ptype = REGRESSION \<or> ptype = QUANTILE")
  case True
  then show ?thesis
    using assms(1)
    unfolding adjust_threshold_if_necessary_def priv_adjust_threshold_if_necessary_def Let_def
    by auto
next
  case False
  then have pt: "ptype = BINARY \<or> ptype = MULTICLASS" by (cases ptype) auto
  have "\<not> list_all isna y" using assms(2) False by simp
  then have cne: "class_counts_of y \<noteq> []"
    by (simp add: class_counts_empty_iff)
  then have "last_class_count y \<noteq> None"
    unfolding last_class_count_def by (cases "class_counts_of y") auto
  then obtain g where g: "accumulate_classes
      \<lceil>of_int (sum_list (class_counts_of y)) * minimum_percent_to_keep\<rceil> 0 0 None (class_counts_of y)
      = Some g"
    using accumulate_top[of y] by auto
  show ?thesis
    unfolding adjust_threshold_if_necessary_def
      priv_adjust_threshold_classification[OF assms(1) pt] g
    by auto
qed

theorem adjust_threshold_returns_witness:
  "\<exists>t hf nb ws.
      adjust_threshold_if_necessary BINARY [Str ''a'', NaN, Str ''b''] 1 (1 / 10) 5
        = Inr ((t, hf, nb), ws)
    \<and> priv_adjust_threshold_if_necessary BINARY [Str ''a'', NaN, Str ''b''] 1 (1 / 10) 5
        = Inr (Some t, hf, nb)"
  by (rule adjust_threshold_returns) (simp_all add: isna_def)

theorem adjust_threshold_empty_counterexample:
  "adjust_threshold_if_necessary BINARY [] 1 (1 / 10) 0 = Inl ZeroDivisionError"
  by code_simp

section \<open>Properties of the label check and of the weights\<close>

lemma isna_replace_inf: "map isna (replace_inf col) = map non_finite col"
  by (auto simp: replace_inf_def isna_def non_finite_def)

lemma first_flagged:
  "length ks = length bs \<Longrightarrow> i < length bs \<Longrightarrow> bs ! i \<Longrightarrow> \<forall>j < i. \<not> bs ! j \<Longrightarrow>
   \<exists>rest. filter snd (zip ks bs) = (ks ! i, True) # rest"
proof (induction ks bs arbitrary: i rule: list_induct2)
  case Nil
  then show ?case by simp
next
  case (Cons k ks b bs)
  show ?case
  proof (cases i)
    case 0
    then show ?thesis using Cons.prems by simp
  next
    case (Suc i')
    then have nb: "\<not> b" using Cons.prems(3) by auto
    have "\<forall>j < i'. \<not> bs ! j"
    proof (intro allI impI)
      fix j assume "j < i'"
      then have "\<not> (b # bs) ! Suc j" using Cons.prems(3) Suc by blast
      then show "\<not> bs ! j" by simp
    qed
    then have "\<exists>rest. filter snd (zip ks bs) = (ks ! i', True) # rest"
      using Cons.IH[of i'] Cons.prems Suc by simp
    then show ?thesis using nb Suc by simp
  qed
qed

lemma getitem_wf_length:
  "wf_frame X \<Longrightarrow> getitem X c = Inr col \<Longrightarrow> length col = length (index X)"
proof -
  assume wf: "wf_frame X" and g: "getitem X c = Inr col"
  from g have "map_of (data X) c = Some col"
    by (auto simp: getitem_def split: option.splits)
  then have "(c, col) \<in> set (data X)" by (rule map_of_SomeD)
  then show ?thesis using wf unfolding wf_frame_def len_def by (auto simp: list_all_iff)
qed

text \<open>
  Claim C7. When the label column of the training frame holds NaN, None or an infinity,
  \<^verbatim>\<open>_check_for_non_finite_values\<close> raises, and the error names the key of the first such
  row. Every object of the store that the caller holds is as it was.
\<close>

theorem check_reports_first_non_finite_label:
  assumes "a < length st" and "wf_frame (st ! a)"
    and "getitem (st ! a) (label self) = Inr col"
    and "i < length col" and "non_finite (col ! i)" and "\<forall>j < i. \<not> non_finite (col ! j)"
  shows "\<exists>st'. priv_check_for_non_finite_values self st (Some a) name True
             = (st', Inl (NonFiniteLabel name (index (st ! a) ! i)))
           \<and> take (length st) st' = st"
proof -
  let ?X = "st ! a"
  have len: "length (index ?X) = length (map non_finite col)"
    using getitem_wf_length[OF assms(2,3)] by simp
  have "\<exists>rest. filter snd (zip (index ?X) (map non_finite col)) = (index ?X ! i, True) # rest"
    using first_flagged[OF len, of i] assms(4,5,6) by simp
  then obtain rest where r: "filter snd (zip (index ?X) (map non_finite col))
      = (index ?X ! i, True) # rest" by blast
  show ?thesis
    unfolding priv_check_for_non_finite_values_def Let_def
    using assms(1,3) r
    by (simp add: nth_append isna_replace_inf setitem_def)
qed


lemma map_of_update_col: "map_of (update_col c vs d) c = Some vs"
  by (induction c vs d rule: update_col.induct) auto

lemma fst_set_update_col: "fst ` set (update_col c vs d) = insert c (fst ` set d)"
  by (induction c vs d rule: update_col.induct) auto

lemma getitem_setitem: "getitem (setitem X c vs) c = Inr vs"
  by (simp add: getitem_def setitem_def map_of_update_col)

lemma columns_setitem: "set (columns (setitem X c vs)) = insert c (set (columns X))"
  by (simp add: columns_def setitem_def fst_set_update_col)

lemma len_setitem: "len (setitem X c vs) = len X"
  by (simp add: len_def setitem_def)

text \<open>
  Claim C8. \<^verbatim>\<open>bundle_weights\<close> on a split that is not the training one, without weights:
  when \<^verbatim>\<open>weight_evaluation\<close> is off, the frame keeps its rows and gains the weight column,
  all NaN; when it is on, the call raises, and the error names the weight column and the
  dataset.
\<close>

theorem bundle_weights_without_weights:
  "(\<not> weight_evaluation self \<longrightarrow>
      (\<exists>X'. bundle_weights self (Some X) None name False = Inr (Some X')
         \<and> len X' = len X
         \<and> index X' = index X
         \<and> getitem X' (sample_weight self) = Inr (replicate (len X) NaN)
         \<and> set (columns X') = insert (sample_weight self) (set (columns X))))
   \<and> (weight_evaluation self \<longrightarrow>
      bundle_weights self (Some X) None name False
        = Inl (MissingSampleWeight (sample_weight self) name))"
  by (simp add: bundle_weights_def getitem_setitem columns_setitem len_setitem)
    (simp add: setitem_def)

lemma value_counts_set:
  "set (value_counts y) = (\<lambda>c. (c, count_list (filter (\<lambda>v. \<not> isna v) y) c)) ` {c \<in> set y. \<not> isna c}"
  by (auto simp: value_counts_def Let_def)

lemma value_counts_distinct: "distinct (map fst (value_counts y))"
proof -
  let ?p = "filter (\<lambda>v. \<not> isna v) y"
  let ?l = "map (\<lambda>c. (c, count_list ?p c)) (remdups ?p)"
  have "map fst ?l = remdups ?p" by (simp add: comp_def)
  then have "distinct (map fst ?l)" by simp
  then have d: "distinct ?l" and i: "inj_on fst (set ?l)"
    unfolding distinct_map by blast+
  have "distinct (sort_key (\<lambda>p. - int (snd p)) ?l)" using d by simp
  moreover have "inj_on fst (set (sort_key (\<lambda>p. - int (snd p)) ?l))"
    using i by (simp only: set_sort)
  ultimately have "distinct (map fst (sort_key (\<lambda>p. - int (snd p)) ?l))"
    unfolding distinct_map by blast
  then show ?thesis
    unfolding value_counts_def Let_def .
qed

lemma count_list_filter: "P c \<Longrightarrow> count_list (filter P y) c = count_list y c"
  by (induction y) auto

lemma value_counts_lookup:
  "c \<in> set y \<Longrightarrow> \<not> isna c \<Longrightarrow> map_of (value_counts y) c = Some (count_list y c)"
proof -
  assume c: "c \<in> set y" "\<not> isna c"
  then have "(c, count_list (filter (\<lambda>v. \<not> isna v) y) c) \<in> set (value_counts y)"
    unfolding value_counts_set by blast
  then have "(c, count_list y c) \<in> set (value_counts y)"
    using count_list_filter[of "\<lambda>v. \<not> isna v" c y] c(2) by simp
  then show ?thesis using value_counts_distinct by simp
qed

lemma length_value_counts: "length (value_counts y) = card {c \<in> set y. \<not> isna c}"
proof -
  have "length (value_counts y) = length (remdups (filter (\<lambda>v. \<not> isna v) y))"
    by (simp add: value_counts_def Let_def)
  also have "\<dots> = card (set (filter (\<lambda>v. \<not> isna v) y))"
    by (simp add: length_remdups_card_conv)
  finally show ?thesis by simp
qed

lemma map_of_map_weights:
  "map_of (map (\<lambda>(c, count). (c, f count)) xs) c = map_option f (map_of xs c)"
  by (induction xs) auto

lemma balance_weights_lookup:
  assumes "c \<in> set y" and "\<not> isna c"
  shows "map_of (balance_weights y) c
     = Some (of_nat (length y) / (of_nat (count_list y c) * of_nat (card {c \<in> set y. \<not> isna c})))"
  unfolding balance_weights_def Let_def
  by (simp add: map_of_map_weights value_counts_lookup[OF assms] length_value_counts)

text \<open>
  Claim C4, as the code has it. With the balance strategy on a binary or multiclass
  problem, the call of \<^verbatim>\<open>set_predefined_weights\<close> on a learner that holds no class weights
  yet (the call on the training labels) computes the weight \<open>n / (count(c) * k)\<close> for
  every class \<open>c\<close> of the \<open>n\<close> labels with \<open>k\<close> classes, so that \<open>count(c) * weight(c)\<close> is
  \<open>n / k\<close> for every class, and keeps the dictionary. The weight column of the frame is the
  image of the labels. A call on a learner that holds class weights (line 398, on
  validation or test labels) leaves the learner as it is and maps the labels through the
  dictionary it holds, whatever their own counts.
\<close>

theorem balance_weights_equalise_classes:
  assumes "sample_weight self = BALANCE_WEIGHT"
    and "problem_type self = BINARY \<or> problem_type self = MULTICLASS"
    and "BALANCE_WEIGHT \<notin> set (columns X)"
  shows "(class_weights self = None \<longrightarrow>
      (\<exists>self' X' cw.
          set_predefined_weights self X y = (self', Inr X')
        \<and> class_weights self' = Some cw
        \<and> getitem X' BALANCE_WEIGHT = Inr (map_weights cw y)
        \<and> (\<forall>c \<in> set y. \<not> isna c \<longrightarrow>
              (\<exists>weight. map_of cw c = Some weight
                 \<and> weight = of_nat (length y)
                      / (of_nat (count_list y c) * of_nat (card {c \<in> set y. \<not> isna c}))
                 \<and> of_nat (count_list y c) * weight
                      = of_nat (length y) / of_nat (card {c \<in> set y. \<not> isna c})))))
    \<and> (\<forall>cached. class_weights self = Some cached \<longrightarrow>
          set_predefined_weights self X y
            = (self, Inr (setitem X BALANCE_WEIGHT (map_weights cached y))))"
proof (intro conjI impI allI)
  assume none: "class_weights self = None"
  let ?cw = "balance_weights y"
  let ?self' = "self\<lparr>class_weights := Some ?cw\<rparr>"
  let ?X' = "setitem X BALANCE_WEIGHT (map_weights ?cw y)"
  have r: "set_predefined_weights self X y = (?self', Inr ?X')"
    using assms none by (auto simp: set_predefined_weights_def Let_def)
  have g: "getitem ?X' BALANCE_WEIGHT = Inr (map_weights ?cw y)"
    by (rule getitem_setitem)
  have w: "\<forall>c \<in> set y. \<not> isna c \<longrightarrow>
          (\<exists>weight. map_of ?cw c = Some weight
             \<and> weight = of_nat (length y)
                  / (of_nat (count_list y c) * of_nat (card {c \<in> set y. \<not> isna c}))
             \<and> of_nat (count_list y c) * weight
                  = of_nat (length y) / of_nat (card {c \<in> set y. \<not> isna c}))"
  proof (intro ballI impI)
    fix c assume c: "c \<in> set y" "\<not> isna c"
    have pos: "count_list y c \<noteq> 0" using c(1) by (simp add: count_list_0_iff)
    show "\<exists>weight. map_of ?cw c = Some weight
             \<and> weight = of_nat (length y)
                  / (of_nat (count_list y c) * of_nat (card {c \<in> set y. \<not> isna c}))
             \<and> of_nat (count_list y c) * weight
                  = of_nat (length y) / of_nat (card {c \<in> set y. \<not> isna c})"
      using balance_weights_lookup[OF c] pos by simp
  qed
  show "\<exists>self' X' cw.
          set_predefined_weights self X y = (self', Inr X')
        \<and> class_weights self' = Some cw
        \<and> getitem X' BALANCE_WEIGHT = Inr (map_weights cw y)
        \<and> (\<forall>c \<in> set y. \<not> isna c \<longrightarrow>
              (\<exists>weight. map_of cw c = Some weight
                 \<and> weight = of_nat (length y)
                      / (of_nat (count_list y c) * of_nat (card {c \<in> set y. \<not> isna c}))
                 \<and> of_nat (count_list y c) * weight
                      = of_nat (length y) / of_nat (card {c \<in> set y. \<not> isna c})))"
    using r g w by (intro exI[of _ ?self'] exI[of _ ?X'] exI[of _ ?cw]) simp
next
  fix cached assume "class_weights self = Some cached"
  then show "set_predefined_weights self X y
            = (self, Inr (setitem X BALANCE_WEIGHT (map_weights cached y)))"
    using assms by (auto simp: set_predefined_weights_def Let_def)
qed

theorem check_reports_first_non_finite_label_witness:
  "\<exists>st'. priv_check_for_non_finite_values example_learner
             [setitem example_train (Some ''y'') [Str ''a'', PosInf, NaN]] (Some 0) ''train'' True
             = (st', Inl (NonFiniteLabel ''train'' (Str ''r2'')))
         \<and> take 1 st' = [setitem example_train (Some ''y'') [Str ''a'', PosInf, NaN]]"
  using check_reports_first_non_finite_label
    [of 0 "[setitem example_train (Some ''y'') [Str ''a'', PosInf, NaN]]" example_learner
        "[Str ''a'', PosInf, NaN]" 1 "''train''"]
  by (simp add: example_learner_def example_train_def setitem_def getitem_def wf_frame_def
      len_def non_finite_def)

theorem bundle_weights_without_weights_witness:
  "(\<exists>X'. bundle_weights example_learner (Some example_val) None ''X_val'' False = Inr (Some X')
         \<and> len X' = len example_val
         \<and> index X' = index example_val
         \<and> getitem X' (sample_weight example_learner) = Inr (replicate (len example_val) NaN)
         \<and> set (columns X')
             = insert (sample_weight example_learner) (set (columns example_val)))
   \<and> bundle_weights (example_learner\<lparr>weight_evaluation := True\<rparr>) (Some example_val) None
        ''X_test'' False
      = Inl (MissingSampleWeight BALANCE_WEIGHT ''X_test'')"
  using bundle_weights_without_weights[of example_learner example_val "''X_val''"]
    bundle_weights_without_weights
      [of "example_learner\<lparr>weight_evaluation := True\<rparr>" example_val "''X_test''"]
  by (simp add: example_learner_def)

theorem balance_weights_equalise_classes_witness:
  "(\<exists>self' X' cw.
      set_predefined_weights example_learner (drop_column example_train (Some ''y''))
        [Str ''a'', Str ''b'', Str ''a''] = (self', Inr X')
    \<and> class_weights self' = Some cw
    \<and> getitem X' BALANCE_WEIGHT = Inr (map_weights cw [Str ''a'', Str ''b'', Str ''a''])
    \<and> map_of cw (Str ''a'') = Some (3 / 4) \<and> map_of cw (Str ''b'') = Some (3 / 2))
   \<and> set_predefined_weights
        (example_learner\<lparr>class_weights := Some [(Str ''a'', 3 / 4), (Str ''b'', 3 / 2)]\<rparr>)
        (drop_column example_val (Some ''y'')) [Str ''b'', Str ''b'']
      = (example_learner\<lparr>class_weights := Some [(Str ''a'', 3 / 4), (Str ''b'', 3 / 2)]\<rparr>,
         Inr (setitem (drop_column example_val (Some ''y'')) BALANCE_WEIGHT
                [Num (3 / 2), Num (3 / 2)]))"
proof -
  let ?y = "[Str ''a'', Str ''b'', Str ''a'']"
  let ?c = "example_learner\<lparr>class_weights := Some [(Str ''a'', 3 / 4), (Str ''b'', 3 / 2)]\<rparr>"
  have card: "card {c \<in> set ?y. \<not> isna c} = 2"
  proof -
    have "{c \<in> set ?y. \<not> isna c} = {Str ''a'', Str ''b''}"
      by (auto simp: isna_def)
    then show ?thesis by simp
  qed
  have h: "sample_weight example_learner = BALANCE_WEIGHT"
    "problem_type example_learner = BINARY \<or> problem_type example_learner = MULTICLASS"
    "BALANCE_WEIGHT \<notin> set (columns (drop_column example_train (Some ''y'')))"
    "BALANCE_WEIGHT \<notin> set (columns (drop_column example_val (Some ''y'')))"
    "class_weights example_learner = None"
    by (simp_all add: example_learner_def example_train_def example_val_def drop_column_def
        columns_def BALANCE_WEIGHT_def)
  from balance_weights_equalise_classes
    [of example_learner "drop_column example_train (Some ''y'')" ?y, OF h(1,2,3)] h(5)
  obtain self' X' cw where
    r: "set_predefined_weights example_learner (drop_column example_train (Some ''y'')) ?y
          = (self', Inr X')"
      "class_weights self' = Some cw"
      "getitem X' BALANCE_WEIGHT = Inr (map_weights cw ?y)"
    and w: "\<forall>c \<in> set ?y. \<not> isna c \<longrightarrow>
          (\<exists>weight. map_of cw c = Some weight
             \<and> weight = of_nat (length ?y)
                  / (of_nat (count_list ?y c) * of_nat (card {c \<in> set ?y. \<not> isna c}))
             \<and> of_nat (count_list ?y c) * weight
                  = of_nat (length ?y) / of_nat (card {c \<in> set ?y. \<not> isna c}))"
    by blast
  have m: "map_of cw (Str ''a'') = Some (3 / 4)" "map_of cw (Str ''b'') = Some (3 / 2)"
    using w card by (auto simp: isna_def)
  have "set_predefined_weights ?c (drop_column example_val (Some ''y'')) [Str ''b'', Str ''b'']
      = (?c, Inr (setitem (drop_column example_val (Some ''y'')) BALANCE_WEIGHT
                (map_weights [(Str ''a'', 3 / 4), (Str ''b'', 3 / 2)] [Str ''b'', Str ''b''])))"
    using balance_weights_equalise_classes
      [of ?c "drop_column example_val (Some ''y'')" "[Str ''b'', Str ''b'']"] h
    by simp
  then have c: "set_predefined_weights ?c (drop_column example_val (Some ''y''))
        [Str ''b'', Str ''b'']
      = (?c, Inr (setitem (drop_column example_val (Some ''y'')) BALANCE_WEIGHT
                [Num (3 / 2), Num (3 / 2)]))"
    by (simp add: map_weights_def)
  show ?thesis using r m c by blast
qed

text \<open>
  The weights are not \<open>n / (count(c) * k)\<close> for every label vector: a learner that kept
  the weights of the training labels \<open>a, b, a\<close> gives the labels \<open>a, b, b, b\<close> the weights
  3/4 and 3/2 of the training classes, where \<open>n / (count(c) * k)\<close> is 2 and 2/3.
\<close>

theorem balance_weights_cached_counterexample:
  "snd (set_predefined_weights
          (fst (set_predefined_weights example_learner
                  (drop_column example_train (Some ''y'')) [Str ''a'', Str ''b'', Str ''a'']))
          \<lparr>index = [Num 10, Num 11, Num 12, Num 13],
           data = [(Some ''f'', [Num 5, Num 6, Num 7, Num 8])]\<rparr>
          [Str ''a'', Str ''b'', Str ''b'', Str ''b''])
     = Inr (setitem \<lparr>index = [Num 10, Num 11, Num 12, Num 13],
                     data = [(Some ''f'', [Num 5, Num 6, Num 7, Num 8])]\<rparr>
              BALANCE_WEIGHT [Num (3 / 4), Num (3 / 2), Num (3 / 2), Num (3 / 2)])
   \<and> map_weights (balance_weights [Str ''a'', Str ''b'', Str ''b'', Str ''b''])
        [Str ''a'', Str ''b'', Str ''b'', Str ''b'']
     = [Num 2, Num (2 / 3), Num (2 / 3), Num (2 / 3)]
   \<and> snd (set_predefined_weights
          (fst (set_predefined_weights example_learner
                  (drop_column example_train (Some ''y'')) [Str ''a'', Str ''b'', Str ''a'']))
          \<lparr>index = [Num 10, Num 11, Num 12, Num 13],
           data = [(Some ''f'', [Num 5, Num 6, Num 7, Num 8])]\<rparr>
          [Str ''a'', Str ''b'', Str ''b'', Str ''b''])
     \<noteq> Inr (setitem \<lparr>index = [Num 10, Num 11, Num 12, Num 13],
                     data = [(Some ''f'', [Num 5, Num 6, Num 7, Num 8])]\<rparr>
              BALANCE_WEIGHT
              (map_weights (balance_weights [Str ''a'', Str ''b'', Str ''b'', Str ''b''])
                 [Str ''a'', Str ''b'', Str ''b'', Str ''b'']))"
  by code_simp

section \<open>Properties of the split and of the cleaning of a split\<close>

lemma len_pd_concat: "pd_concat ds = Inr S \<Longrightarrow> len S = sum_list (map len (drop_none ds))"
  by (auto simp: pd_concat_def Let_def len_def range_index_def split: if_splits)

lemma len_iloc: "a + l \<le> len X \<Longrightarrow> len (iloc X a (a + l)) = l"
  by (simp add: iloc_def len_def)

lemma offset_None: "offset (None # ds) (Suc i) = offset ds i"
  by (simp add: offset_def)

lemma offset_Some: "offset (Some d # ds) (Suc i) = len d + offset ds i"
  by (simp add: offset_def)

lemma offset_0: "offset ds 0 = 0"
  by (simp add: offset_def)

lemma resplit_lens:
  "idx + sum_list (map len (drop_none ds)) \<le> len S \<Longrightarrow>
   \<exists>out. resplit S idx ds = Inr out
     \<and> map (map_option len) out = map (map_option len) ds
     \<and> map (map_option index) out = map (map_option index) ds
     \<and> sum_list (map len (drop_none out)) = sum_list (map len (drop_none ds))"
proof (induction ds arbitrary: idx)
  case Nil
  then show ?case by simp
next
  case (Cons d ds)
  show ?case
  proof (cases d)
    case None
    then show ?thesis using Cons.IH[of idx] Cons.prems by auto
  next
    case (Some F0)
    have b: "idx + len F0 \<le> len S" using Cons.prems Some by simp
    have si: "set_index (iloc S idx (idx + len F0)) (index F0)
        = Inr ((iloc S idx (idx + len F0))\<lparr>index := index F0\<rparr>)"
      using len_iloc[OF b] by (simp add: set_index_def len_def)
    have "idx + len F0 + sum_list (map len (drop_none ds)) \<le> len S"
      using Cons.prems Some by simp
    from Cons.IH[OF this] show ?thesis using Some si by (auto simp: len_def)
  qed
qed

lemma resplit_data:
  "resplit S idx ds = Inr out \<Longrightarrow> i < length ds \<Longrightarrow>
   map_option data (out ! i)
     = map_option (\<lambda>F. data (iloc S (idx + offset ds i) (idx + offset ds i + len F))) (ds ! i)"
proof (induction ds arbitrary: idx out i)
  case Nil
  then show ?case by simp
next
  case (Cons d ds)
  show ?case
  proof (cases d)
    case None
    then obtain rest where r: "resplit S idx ds = Inr rest" "out = None # rest"
      using Cons.prems(1) by (auto split: sum.splits)
    show ?thesis
    proof (cases i)
      case 0
      then show ?thesis using None r by simp
    next
      case (Suc i')
      then show ?thesis using Cons.IH[OF r(1), of i'] Cons.prems(2) None r(2)
        by (simp add: offset_None)
    qed
  next
    case (Some F0)
    then obtain d' rest where r: "set_index (iloc S idx (idx + len F0)) (index F0) = Inr d'"
      "resplit S (idx + len F0) ds = Inr rest" "out = Some d' # rest"
      using Cons.prems(1) by (auto split: sum.splits)
    have dd: "data d' = data (iloc S idx (idx + len F0))"
      using r(1) by (auto simp: set_index_def split: if_splits)
    show ?thesis
    proof (cases i)
      case 0
      then show ?thesis using Some r(3) dd by (simp add: offset_0)
    next
      case (Suc i')
      then show ?thesis using Cons.IH[OF r(2), of i'] Cons.prems(2) Some r(3)
        by (simp add: offset_Some add.assoc)
    qed
  qed
qed

text \<open>
  Claim C5. When the concatenation of the frames succeeds and the transformed frame has
  as many rows, the loop gives back one frame for each frame that was present and None
  for each that was absent; each frame has the row count and the row keys of its input,
  its cells are the rows of the transformed frame at the position its rows had in the
  concatenation, and the row counts add up to that of the concatenation.
\<close>

theorem resplit_restores_splits:
  assumes "pd_concat datasets = Inr X_super" and "len X_super' = len X_super"
  shows "\<exists>out. resplit X_super' 0 datasets = Inr out
     \<and> map (map_option len) out = map (map_option len) datasets
     \<and> map (map_option index) out = map (map_option index) datasets
     \<and> (\<forall>i < length datasets.
          map_option data (out ! i)
            = map_option (\<lambda>F. data (iloc X_super' (offset datasets i)
                                        (offset datasets i + len F))) (datasets ! i))
     \<and> sum_list (map len (drop_none out)) = len X_super"
proof -
  have "0 + sum_list (map len (drop_none datasets)) \<le> len X_super'"
    using len_pd_concat[OF assms(1)] assms(2) by simp
  from resplit_lens[OF this] obtain out where o: "resplit X_super' 0 datasets = Inr out"
    "map (map_option len) out = map (map_option len) datasets"
    "map (map_option index) out = map (map_option index) datasets"
    "sum_list (map len (drop_none out)) = sum_list (map len (drop_none datasets))"
    by blast
  have "\<forall>i < length datasets.
          map_option data (out ! i)
            = map_option (\<lambda>F. data (iloc X_super' (offset datasets i)
                                        (offset datasets i + len F))) (datasets ! i)"
    using resplit_data[OF o(1)] by simp
  then show ?thesis using o len_pd_concat[OF assms(1)] by simp
qed

theorem resplit_restores_splits_witness:
  "\<exists>out. resplit \<lparr>index = range_index 5,
                  data = [(Some ''f'', [Num 1, Num 2, Num 3, Num 5, Num 6]),
                          (Some ''y'', [Str ''a'', Str ''b'', Str ''a'', Str ''a'', Str ''b''])]\<rparr>
            0 [Some example_train, Some example_val, None, None] = Inr out
     \<and> map (map_option len) out = [Some 3, Some 2, None, None]
     \<and> map (map_option index) out
         = [Some [Str ''r1'', Str ''r2'', Str ''r3''], Some [Num 10, Num 11], None, None]
     \<and> sum_list (map len (drop_none out)) = 5"
proof -
  let ?ds = "[Some example_train, Some example_val, None, None]"
  let ?S = "\<lparr>index = range_index 5,
                  data = [(Some ''f'', [Num 1, Num 2, Num 3, Num 5, Num 6]),
                          (Some ''y'', [Str ''a'', Str ''b'', Str ''a'', Str ''a'', Str ''b''])]\<rparr>"
  have c: "pd_concat ?ds = Inr ?S"
    by code_simp
  have "len ?S = len ?S" by simp
  from resplit_restores_splits[OF c this] show ?thesis
    by (auto simp: example_train_def example_val_def len_def range_index_def)
qed

lemma getitem_present: "c \<in> set (columns X) \<Longrightarrow> \<exists>col. getitem X c = Inr col"
  unfolding getitem_def columns_def
  by (cases "map_of (data X) c") (auto simp: map_of_eq_None_iff)

lemma apply_cleaner_transform_emptied:
  assumes "label self \<in> set (columns X)" and "cleaner self = Some fitted"
    and "len (fitted X) = 0" and "\<not> is_test \<or> len X = 0"
    and "getitem X (label self) = Inr y_og"
    and "(problem_type self = REGRESSION \<or> problem_type self = QUANTILE)
         \<or> (sortable (remdups y_uncleaned) \<and> sortable (remdups y_og))"
  shows "priv_apply_cleaner_transform self (Some X) y_uncleaned holdout_frac holdout_frac_og
           name is_test
         = (self, Inr (None, None, None, holdout_frac_og))"
  using assms unfolding priv_apply_cleaner_transform_def Let_def
  by (cases "problem_type self") auto

text \<open>
  Claim C3, at an input where the code fails it. The training labels mix a number and a
  string, the problem is multiclass, and the fitted cleaner removes every row of the
  validation frame: \<^verbatim>\<open>sorted(list(y_uncleaned.unique()))\<close> of line 381 raises TypeError
  before the split is discarded. (The lemma above gives the return of the claim whenever
  the labels of each split sort.)
\<close>

theorem apply_cleaner_transform_unsortable_labels:
  "priv_apply_cleaner_transform
     (example_learner\<lparr>cleaner := Some (\<lambda>F. iloc F 0 0)\<rparr>)
     (Some \<lparr>index = [Num 0], data = [(Some ''f'', [Num 5]), (Some ''y'', [Str ''z''])]\<rparr>)
     [Num 1, Str ''a'', Num 1, Str ''a''] 1 (1 / 10) ''val'' False
   = (example_learner\<lparr>cleaner := Some (\<lambda>F. iloc F 0 0)\<rparr>, Inl TypeError)"
  by (simp add: priv_apply_cleaner_transform_def example_learner_def columns_def getitem_def
      len_def iloc_def sortable_def)

section \<open>Properties of the whole processing\<close>

lemma gdp_returns:
  assumes "general_data_processing env self X X_val X_test X_unlabeled holdout_frac num_bag_folds
           = (self', Inr out)"
  shows "\<exists>Xc Vc Tc sA Xa hf1 nb1 sB Xb y w gcol yu sC Vv yv wv hf2 sD Tt yt wt u
          d0 d1 d2 d3 Tf Xo Vo To.
      check_for_non_finite_values self (Some X) ''train'' True = Inr (Some Xc)
    \<and> (case X_val of None \<Rightarrow> Inr None
        | Some V \<Rightarrow> check_for_non_finite_values self X_val ''val'' False) = Inr Vc
    \<and> (case X_test of None \<Rightarrow> Inr None
        | Some T \<Rightarrow> check_for_non_finite_values self X_test ''test'' False) = Inr Tc
    \<and> gdp_threshold env self Xc Vc holdout_frac num_bag_folds = (sA, Inr (Xa, hf1, nb1))
    \<and> gdp_clean_train env sA Xa = (sB, Inr (Xb, y, w, gcol, yu))
    \<and> priv_apply_cleaner_transform sB Vc yu hf1 holdout_frac ''val'' False
        = (sC, Inr (Vv, yv, wv, hf2))
    \<and> priv_apply_cleaner_transform sC Tc yu hf2 holdout_frac ''test'' True
        = (sD, Inr (Tt, yt, wt, u))
    \<and> gdp_features env sD Xb y Vv yv Tt yt X_unlabeled = (self', Inr ([d0, d1, d2, d3], Tf))
    \<and> bundle_weights self' d0 w ''X'' True = Inr Xo
    \<and> bundle_weights self' d1 wv ''X_val'' False = Inr Vo
    \<and> bundle_weights self' Tf wt ''X_test'' False = Inr To
    \<and> out = \<lparr>out_X = Xo, out_y = y, out_X_val = Vo, out_y_val = yv,
               out_X_test = To, out_y_test = yt, out_X_unlabeled = d3,
               out_holdout_frac = hf2, out_num_bag_folds = nb1, out_groups = gcol\<rparr>"
  using assms unfolding general_data_processing_def Let_def
  by (auto split: sum.splits option.splits prod.splits list.splits)


lemma update_col_same: "map_of d c = Some vs \<Longrightarrow> update_col c vs d = d"
  by (induction c vs d rule: update_col.induct) (auto split: if_splits)

lemma no_flag_all_false:
  "length ks = length bs \<Longrightarrow> filter snd (zip ks bs) = [] \<Longrightarrow> \<forall>b \<in> set bs. \<not> b"
proof (induction ks bs rule: list_induct2)
  case Nil
  then show ?case by simp
next
  case (Cons k ks b bs)
  then show ?case by (cases b) auto
qed

lemma replace_inf_id:
  assumes "\<forall>b \<in> set (map isna (replace_inf col)). \<not> b"
  shows "replace_inf col = col"
proof -
  have "\<forall>v \<in> set col. \<not> (v = PosInf \<or> v = NegInf)"
  proof
    fix v assume "v \<in> set col"
    then have "\<not> isna (if v = PosInf \<or> v = NegInf then NaN else v)"
      using assms by (auto simp: replace_inf_def)
    then show "\<not> (v = PosInf \<or> v = NegInf)" by (auto simp: isna_def)
  qed
  then show ?thesis unfolding replace_inf_def by (induction col) auto
qed

lemma check_returns_frame:
  assumes "wf_frame X"
    and "check_for_non_finite_values self (Some X) name is_train = Inr r"
  shows "r = Some X"
proof (cases "is_train \<or> label self \<in> set (columns X)")
  case False
  then show ?thesis using assms(2)
    by (auto simp: check_for_non_finite_values_def priv_check_for_non_finite_values_def)
next
  case True
  show ?thesis
  proof (cases "getitem X (label self)")
    case (Inl e)
    then show ?thesis using assms(2) True
      by (auto simp: check_for_non_finite_values_def priv_check_for_non_finite_values_def Let_def)
  next
    case (Inr col)
    have m: "map_of (data X) (label self) = Some col"
      using Inr by (auto simp: getitem_def split: option.splits)
    have len: "length (index X) = length (map isna (replace_inf col))"
      using getitem_wf_length[OF assms(1) Inr] by (simp add: replace_inf_def)
    have res: "filter snd (zip (index X) (map isna (replace_inf col))) = []
               \<and> r = Some (setitem X (label self) (replace_inf col))"
      using assms(2) True Inr
      by (auto simp: check_for_non_finite_values_def priv_check_for_non_finite_values_def
            Let_def setitem_def split: list.splits)
    then have "replace_inf col = col"
      using no_flag_all_false[OF len] replace_inf_id by blast
    then show ?thesis using res m by (simp add: setitem_def update_col_same)
  qed
qed

lemma adjust_holdout:
  assumes "adjust_threshold_if_necessary ptype y t h n = Inr ((t', h', n'), ws)"
  shows "h' = max h (1 / of_nat (length y) + 1 / 1000)"
  using assms
  unfolding adjust_threshold_if_necessary_def priv_adjust_threshold_if_necessary_def Let_def
  by (auto split: if_splits sum.splits option.splits prod.splits)

lemma gdp_threshold_returns:
  assumes "gdp_threshold env self X X_val holdout_frac num_bag_folds = (self', Inr (Xa, hf, nb))"
  shows "Xa = threshold_frame env self X num_bag_folds
       \<and> self' = self\<lparr>threshold := threshold self'\<rparr>
       \<and> (\<exists>y. getitem Xa (label self) = Inr y
            \<and> hf = max (if (case X_val of None \<Rightarrow> False
                                | Some V \<Rightarrow> label self \<in> set (columns V))
                         then 1 else holdout_frac)
                        (1 / of_nat (length y) + 1 / 1000))"
  using assms unfolding gdp_threshold_def threshold_frame_def Let_def
  by (auto split: if_splits sum.splits prod.splits dest: adjust_holdout)

lemma set_predefined_weights_state:
  "set_predefined_weights self X y = (self', r) \<Longrightarrow> \<exists>cw. self' = self\<lparr>class_weights := cw\<rparr>"
  unfolding set_predefined_weights_def Let_def
  by (auto split: if_splits option.splits intro: exI[of _ "class_weights self"])

lemma gdp_clean_train_state:
  assumes "gdp_clean_train env self X = (self', r)"
  shows "\<exists>cw cl lc. self' = self\<lparr>class_weights := cw, cleaner := cl, label_cleaner := lc\<rparr>"
proof (cases "getitem X (label self)")
  case (Inl e)
  then have "self' = self" using assms by (simp add: gdp_clean_train_def)
  then have "self' = self\<lparr>class_weights := class_weights self, cleaner := cleaner self,
      label_cleaner := label_cleaner self\<rparr>" by simp
  then show ?thesis by blast
next
  case (Inr yu)
  obtain fitted X1 where f: "Cleaner_fit_transform env (problem_type self) (label self)
      (threshold self) X = (fitted, X1)" by fastforce
  show ?thesis
  proof (cases "extract_label (self\<lparr>cleaner := Some fitted\<rparr>) X1")
    case (Inl e)
    then have "self' = self\<lparr>cleaner := Some fitted\<rparr>"
      using assms Inr f by (simp add: gdp_clean_train_def)
    then have "self' = self\<lparr>class_weights := class_weights self, cleaner := Some fitted,
      label_cleaner := label_cleaner self\<rparr>" by simp
    then show ?thesis by blast
  next
    case r2: (Inr p)
    obtain X2 y where p: "p = (X2, y)" by fastforce
    let ?lc = "LabelCleaner_construct env (problem_type self) y yu (positive_class self)"
    let ?s = "self\<lparr>cleaner := Some fitted, label_cleaner := Some ?lc\<rparr>"
    obtain s3 r3 where w: "set_predefined_weights ?s X2 (lc_transform ?lc y) = (s3, r3)"
      by fastforce
    from set_predefined_weights_state[OF w] obtain cw where cw: "s3 = ?s\<lparr>class_weights := cw\<rparr>"
      by blast
    have "self' = s3"
      using assms Inr f r2 p w
      by (auto simp: gdp_clean_train_def Let_def split: sum.splits prod.splits)
    then have "self' = self\<lparr>class_weights := cw, cleaner := Some fitted,
        label_cleaner := Some ?lc\<rparr>" using cw by simp
    then show ?thesis by blast
  qed
qed

lemma gdp_clean_train_cleaner:
  assumes "gdp_clean_train env self X = (self', Inr res)"
  shows "\<exists>fitted. cleaner self' = Some fitted"
  using assms unfolding gdp_clean_train_def Let_def
  by (auto split: sum.splits prod.splits dest!: set_predefined_weights_state)

lemma apply_cleaner_transform_state:
  assumes "priv_apply_cleaner_transform self X yu hf og name is_test = (self', r)"
  shows "\<exists>cw. self' = self\<lparr>class_weights := cw\<rparr>"
proof -
  have "self' = self \<or> (\<exists>X2 y r'. set_predefined_weights self X2 y = (self', r'))"
    using assms unfolding priv_apply_cleaner_transform_def Let_def
    by (auto split: sum.splits prod.splits option.splits if_splits)
  then show ?thesis
  proof
    assume "self' = self"
    then have "self' = self\<lparr>class_weights := class_weights self\<rparr>" by simp
    then show ?thesis by blast
  next
    assume "\<exists>X2 y r'. set_predefined_weights self X2 y = (self', r')"
    then show ?thesis using set_predefined_weights_state by blast
  qed
qed

lemma apply_cleaner_transform_holdout:
  assumes "priv_apply_cleaner_transform self (Some V) yu hf og name is_test
           = (self', Inr (Vv, yv, wv, hf'))"
    and "label self \<in> set (columns V)" and "cleaner self = Some fitted"
  shows "hf' = (if len (fitted V) = 0 then og else hf)"
  using assms unfolding priv_apply_cleaner_transform_def Let_def
  by (auto split: sum.splits prod.splits option.splits if_splits)

lemma gdp_transform_state:
  assumes "gdp_transform env self S y yv yts T U = (self', r)"
  shows "\<exists>g calls. self' = self\<lparr>feature_generator := g, generator_calls := calls\<rparr>"
proof -
  have "self' = self\<lparr>feature_generator := feature_generator self',
                       generator_calls := generator_calls self'\<rparr>"
    using assms unfolding gdp_transform_def Let_def
    by (auto split: sum.splits prod.splits option.splits if_splits)
  then show ?thesis by blast
qed

lemma gdp_features_state:
  assumes "gdp_features env self X y Xv yv T yt U = (self', r)"
  shows "\<exists>g cols calls. self' = self\<lparr>feature_generator := g, original_features := cols,
                       generator_calls := calls\<rparr>"
proof -
  let ?s = "self\<lparr>original_features := Some (columns X)\<rparr>"
  have "self' = ?s \<or> (\<exists>S r'. gdp_transform env ?s S y yv
      (if transform_with_test then yt else None) T U = (self', r'))"
    using assms unfolding gdp_features_def Let_def
    by (auto split: sum.splits prod.splits)
  then show ?thesis
  proof
    assume "self' = ?s"
    then have "self' = self\<lparr>feature_generator := feature_generator self,
        original_features := Some (columns X), generator_calls := generator_calls self\<rparr>"
      by simp
    then show ?thesis by blast
  next
    assume "\<exists>S r'. gdp_transform env ?s S y yv
      (if transform_with_test then yt else None) T U = (self', r')"
    then obtain g calls where "self' = ?s\<lparr>feature_generator := g, generator_calls := calls\<rparr>"
      using gdp_transform_state by blast
    then have "self' = self\<lparr>feature_generator := g, original_features := Some (columns X),
        generator_calls := calls\<rparr>" by simp
    then show ?thesis by blast
  qed
qed

text \<open>
  Claim C10. When \<^verbatim>\<open>general_data_processing\<close> returns and the validation frame holds the
  label column, the returned holdout fraction is \<open>max(1, 1 / n_rows + 0.001)\<close>, with
  \<open>n_rows\<close> the number of training labels the thresholds were adjusted on, whatever the
  caller passed; unless the fitted cleaner leaves no row of the validation frame, when it
  is the caller's value.
\<close>

theorem holdout_frac_with_validation_labels:
  assumes "general_data_processing env self X (Some V) X_test X_unlabeled holdout_frac
             num_bag_folds = (self', Inr out)"
    and "label self \<in> set (columns V)" and "wf_frame X" and "wf_frame V"
  shows "\<exists>y fitted.
      getitem (threshold_frame env self X num_bag_folds) (label self) = Inr y
    \<and> cleaner self' = Some fitted
    \<and> out_holdout_frac out
        = (if len (fitted V) = 0 then holdout_frac
           else max 1 (1 / of_nat (length y) + 1 / 1000))"
proof -
  from gdp_returns[OF assms(1)]
  obtain Xc Vc Tc sA Xa hf1 nb1 sB Xb y w gcol yu sC Vv yv wv hf2 sD Tt yt wt u
          d0 d1 d2 d3 Tf where
    c1: "check_for_non_finite_values self (Some X) ''train'' True = Inr (Some Xc)"
    and c2: "check_for_non_finite_values self (Some V) ''val'' False = Inr Vc"
    and p1: "gdp_threshold env self Xc Vc holdout_frac num_bag_folds = (sA, Inr (Xa, hf1, nb1))"
    and p2: "gdp_clean_train env sA Xa = (sB, Inr (Xb, y, w, gcol, yu))"
    and p3: "priv_apply_cleaner_transform sB Vc yu hf1 holdout_frac ''val'' False
        = (sC, Inr (Vv, yv, wv, hf2))"
    and p4: "priv_apply_cleaner_transform sC Tc yu hf2 holdout_frac ''test'' True
        = (sD, Inr (Tt, yt, wt, u))"
    and p5: "gdp_features env sD Xb y Vv yv Tt yt X_unlabeled = (self', Inr ([d0, d1, d2, d3], Tf))"
    and o: "out_holdout_frac out = hf2"
    by auto
  have xc: "Xc = X" using check_returns_frame[OF assms(3) c1] by simp
  have vc: "Vc = Some V" using check_returns_frame[OF assms(4) c2] by simp
  from gdp_threshold_returns[OF p1] obtain t y0 where
    xa: "Xa = threshold_frame env self X num_bag_folds"
    and sa: "sA = self\<lparr>threshold := t\<rparr>"
    and y0: "getitem Xa (label self) = Inr y0"
    and h1: "hf1 = max 1 (1 / of_nat (length y0) + 1 / 1000)"
    using xc vc assms(2) by auto
  from gdp_clean_train_state[OF p2] obtain cw cl lc where
    sb: "sB = sA\<lparr>class_weights := cw, cleaner := cl, label_cleaner := lc\<rparr>" by blast
  from gdp_clean_train_cleaner[OF p2] obtain fitted where f: "cleaner sB = Some fitted" by blast
  have lb: "label sB = label self" using sa sb by simp
  have h2: "hf2 = (if len (fitted V) = 0 then holdout_frac else hf1)"
    using apply_cleaner_transform_holdout[OF p3[unfolded vc] _ f] assms(2) lb by simp
  from apply_cleaner_transform_state[OF p3] obtain cw3 where
    sc: "sC = sB\<lparr>class_weights := cw3\<rparr>" by blast
  from apply_cleaner_transform_state[OF p4] obtain cw4 where
    sd: "sD = sC\<lparr>class_weights := cw4\<rparr>" by blast
  from gdp_features_state[OF p5] obtain g cols calls where
    se: "self' = sD\<lparr>feature_generator := g, original_features := cols,
                       generator_calls := calls\<rparr>" by blast
  have "cleaner self' = Some fitted" using se sd sc f by simp
  then show ?thesis using y0 xa h1 h2 o by auto
qed

lemma example_processing_holdout:
  "(case general_data_processing example_env example_learner example_train (Some example_val)
           None None (1 / 10) 0 of
      (self', Inl e) \<Rightarrow> False
    | (self', Inr out) \<Rightarrow>
        (case cleaner self' of None \<Rightarrow> False | Some fitted \<Rightarrow> len (fitted example_val) = 2))"
  by code_simp

theorem holdout_frac_with_validation_labels_witness:
  "\<exists>out. snd (general_data_processing example_env example_learner example_train
                (Some example_val) None None (1 / 10) 0) = Inr out
       \<and> out_holdout_frac out = 1"
proof -
  obtain self' out fitted where
    r: "general_data_processing example_env example_learner example_train (Some example_val)
           None None (1 / 10) 0 = (self', Inr out)"
    and f: "cleaner self' = Some fitted" "len (fitted example_val) = 2"
    using example_processing_holdout
    by (auto split: prod.splits sum.splits option.splits)
  have l: "label example_learner \<in> set (columns example_val)"
    by (simp add: example_learner_def example_val_def columns_def)
  have w: "wf_frame example_train" "wf_frame example_val"
    by (simp_all add: wf_frame_def example_train_def example_val_def len_def)
  have g: "getitem (threshold_frame example_env example_learner example_train 0)
             (label example_learner) = Inr [Str ''a'', Str ''b'', Str ''a'']"
    by (simp add: threshold_frame_def example_learner_def example_train_def getitem_def)
  from holdout_frac_with_validation_labels[OF r l w] f g
  have "out_holdout_frac out = 1" by auto
  then show ?thesis using r by simp
qed

section \<open>The feature generator is fit once\<close>

lemma safe_threshold_idem: "safe_threshold y (safe_threshold y t n) n = safe_threshold y t n"
  by (simp add: safe_threshold_def Let_def)

lemma safe_threshold_ge: "t \<le> safe_threshold y t n"
  by (simp add: safe_threshold_def Let_def)

lemma priv_adjust_idempotent:
  assumes "priv_adjust_threshold_if_necessary ptype y t h n = Inr (Some t', h', n')"
  shows "priv_adjust_threshold_if_necessary ptype y t' h n = Inr (Some t', h', n')"
proof -
  have ne: "y \<noteq> []"
    using assms by (auto simp: priv_adjust_threshold_if_necessary_def)
  show ?thesis
  proof (cases "ptype = REGRESSION \<or> ptype = QUANTILE")
    case True
    then show ?thesis using assms ne
      unfolding priv_adjust_threshold_if_necessary_def Let_def
      by (auto split: if_splits)
  next
    case False
    then have pt: "ptype = BINARY \<or> ptype = MULTICLASS" by (cases ptype) auto
    let ?G = "accumulate_classes
      \<lceil>of_int (sum_list (class_counts_of y)) * minimum_percent_to_keep\<rceil> 0 0 None (class_counts_of y)"
    let ?s = "\<lambda>t. safe_threshold y t n"
    have e1: "(if keeps_enough y (?s t) then Some (?s t) else ?G) = Some t'"
      and hn: "h' = max h (1 / of_int (int (length y)) + 1 / 1000)" "n' = min n (int (length y))"
      using assms priv_adjust_threshold_classification[OF ne pt, of t h n] by auto
    have "(if keeps_enough y (?s t') then Some (?s t') else ?G) = Some t'"
    proof (cases "keeps_enough y (?s t)")
      case True
      then have "t' = ?s t" using e1 by simp
      then show ?thesis using True safe_threshold_idem by simp
    next
      case nk: False
      then have g: "?G = Some t'" using e1 by simp
      show ?thesis
      proof (cases "keeps_enough y (?s t')")
        case True
        then obtain g' where "?G = Some g'" "?s t' \<le> g'"
          using keeps_enough_accumulate_ge by blast
        then have "?s t' \<le> t'" using g by simp
        then have "?s t' = t'" using safe_threshold_ge[of t' y n] by simp
        then show ?thesis using True by simp
      next
        case False
        then show ?thesis using g by simp
      qed
    qed
    then show ?thesis
      using priv_adjust_threshold_classification[OF ne pt, of t' h n] hn by simp
  qed
qed

lemma adjust_idempotent:
  assumes "adjust_threshold_if_necessary ptype y t h n = Inr ((t', h', n'), ws)"
  shows "\<exists>ws'. adjust_threshold_if_necessary ptype y t' h n = Inr ((t', h', n'), ws')"
proof -
  have "priv_adjust_threshold_if_necessary ptype y t h n = Inr (Some t', h', n')"
    using assms unfolding adjust_threshold_if_necessary_def
    by (auto split: sum.splits option.splits prod.splits)
  from priv_adjust_idempotent[OF this] show ?thesis
    unfolding adjust_threshold_if_necessary_def by simp
qed

lemma gdp_threshold_unfold:
  "gdp_threshold env s X V h n =
     (let h0 = (if (case V of None \<Rightarrow> False | Some V \<Rightarrow> label s \<in> set (columns V))
                then 1 else h);
          t0 = (if needs_proba s = Some True \<and> problem_type s = MULTICLASS
                then (if n > 0 then 2 else 1) else threshold s);
          Xa = threshold_frame env s X n
      in (case getitem Xa (label s) of
            Inl e \<Rightarrow> (s\<lparr>threshold := t0\<rparr>, Inl e)
          | Inr y \<Rightarrow>
              (case adjust_threshold_if_necessary (problem_type s) y t0 h0 n of
                 Inl e \<Rightarrow> (s\<lparr>threshold := t0\<rparr>, Inl e)
               | Inr ((t, hf, nb), ws) \<Rightarrow> (s\<lparr>threshold := t\<rparr>, Inr (Xa, hf, nb)))))"
proof (cases "needs_proba s = Some True \<and> problem_type s = MULTICLASS")
  case True
  show ?thesis
  proof (cases "0 < n")
    case n: True
    show ?thesis
      using True n unfolding gdp_threshold_def threshold_frame_def Let_def
      by (cases "groups s") (simp_all cong: sum.case_cong prod.case_cong)
  next
    case n: False
    show ?thesis
      using True n unfolding gdp_threshold_def threshold_frame_def Let_def
      by (simp cong: sum.case_cong prod.case_cong)
  qed
next
  case False
  have "s\<lparr>threshold := threshold s\<rparr> = s" by simp
  then show ?thesis
    using False unfolding gdp_threshold_def threshold_frame_def Let_def
    by (cases "needs_proba s = Some True") (simp_all cong: sum.case_cong prod.case_cong)
qed

lemma gdp_threshold_again:
  assumes "gdp_threshold env s X V h n = (sA, Inr res)"
    and "label s2 = label s" and "needs_proba s2 = needs_proba s"
    and "problem_type s2 = problem_type s" and "groups s2 = groups s"
    and "threshold s2 = threshold sA"
  shows "gdp_threshold env s2 X V h n = (s2, Inr res)"
proof -
  define h0 where "h0 = (if (case V of None \<Rightarrow> False | Some V \<Rightarrow> label s \<in> set (columns V))
                then 1 else h)"
  define t0 where "t0 = (if needs_proba s = Some True \<and> problem_type s = MULTICLASS
                then (if n > 0 then 2 else (1::int)) else threshold s)"
  define t2 where "t2 = (if needs_proba s2 = Some True \<and> problem_type s2 = MULTICLASS
                then (if n > 0 then 2 else (1::int)) else threshold s2)"
  define Xa where "Xa = threshold_frame env s X n"
  have xa2: "threshold_frame env s2 X n = Xa"
    unfolding Xa_def threshold_frame_def assms(2-5) by simp
  have u1: "gdp_threshold env s X V h n =
      (case getitem Xa (label s) of
            Inl e \<Rightarrow> (s\<lparr>threshold := t0\<rparr>, Inl e)
          | Inr y \<Rightarrow>
              (case adjust_threshold_if_necessary (problem_type s) y t0 h0 n of
                 Inl e \<Rightarrow> (s\<lparr>threshold := t0\<rparr>, Inl e)
               | Inr ((t, hf, nb), ws) \<Rightarrow> (s\<lparr>threshold := t\<rparr>, Inr (Xa, hf, nb))))"
    unfolding gdp_threshold_unfold Let_def h0_def t0_def Xa_def ..
  have u2: "gdp_threshold env s2 X V h n =
      (case getitem Xa (label s) of
            Inl e \<Rightarrow> (s2\<lparr>threshold := t2\<rparr>, Inl e)
          | Inr y \<Rightarrow>
              (case adjust_threshold_if_necessary (problem_type s) y t2 h0 n of
                 Inl e \<Rightarrow> (s2\<lparr>threshold := t2\<rparr>, Inl e)
               | Inr ((t, hf, nb), ws) \<Rightarrow> (s2\<lparr>threshold := t\<rparr>, Inr (Xa, hf, nb))))"
    unfolding gdp_threshold_unfold Let_def h0_def t2_def xa2 assms(2-5) ..
  obtain y where y: "getitem Xa (label s) = Inr y"
    using assms(1) unfolding u1 by (cases "getitem Xa (label s)") auto
  obtain t' h' n' ws where a: "adjust_threshold_if_necessary (problem_type s) y t0 h0 n
      = Inr ((t', h', n'), ws)"
    using assms(1) unfolding u1 y
    by (cases "adjust_threshold_if_necessary (problem_type s) y t0 h0 n") auto
  have r: "res = (Xa, h', n')" and sa: "sA = s\<lparr>threshold := t'\<rparr>"
    using assms(1) by (simp_all add: u1 y a)
  have th2: "threshold s2 = t'" using assms(6) sa by simp
  have "\<exists>ws'. adjust_threshold_if_necessary (problem_type s) y t2 h0 n = Inr ((t', h', n'), ws')"
  proof (cases "needs_proba s = Some True \<and> problem_type s = MULTICLASS")
    case True
    then have "t2 = t0" unfolding t2_def t0_def assms(2-5) by simp
    then show ?thesis using a by auto
  next
    case False
    then have "t2 = t'" unfolding t2_def assms(2-5) using th2 by auto
    then show ?thesis using adjust_idempotent[OF a] by simp
  qed
  then obtain ws' where
    a2: "adjust_threshold_if_necessary (problem_type s) y t2 h0 n = Inr ((t', h', n'), ws')"
    by blast
  have "s2\<lparr>threshold := t'\<rparr> = s2" using th2 by simp
  then show ?thesis by (simp add: u2 y a2 r)
qed


lemma set_predefined_weights_settles:
  "set_predefined_weights s X y = (s', Inr X') \<Longrightarrow> weights_settled s'"
  unfolding set_predefined_weights_def weights_settled_def Let_def
  by (auto split: if_splits option.splits)

lemma set_predefined_weights_settled:
  "weights_settled s \<Longrightarrow> set_predefined_weights s X y = (s', r) \<Longrightarrow> s' = s"
  unfolding set_predefined_weights_def weights_settled_def Let_def
  by (auto split: if_splits option.splits)

lemma set_predefined_weights_again:
  assumes "set_predefined_weights s X y = (s', Inr X')"
    and "sample_weight s2 = sample_weight s" and "problem_type s2 = problem_type s"
    and "class_weights s2 = class_weights s'"
  shows "set_predefined_weights s2 X y = (s2, Inr X')"
proof (cases "(sample_weight s \<noteq> AUTO_WEIGHT \<and> sample_weight s \<noteq> BALANCE_WEIGHT)
         \<or> (problem_type s \<noteq> BINARY \<and> problem_type s \<noteq> MULTICLASS)")
  case True
  then show ?thesis using assms unfolding set_predefined_weights_def by auto
next
  case False
  then have b: "sample_weight s = BALANCE_WEIGHT" "sample_weight s \<notin> set (columns X)"
    using assms(1) unfolding set_predefined_weights_def Let_def
    by (auto split: if_splits)
  show ?thesis
  proof (cases "class_weights s")
    case None
    then have "s' = s\<lparr>class_weights := Some (balance_weights y)\<rparr>"
      "X' = setitem X (sample_weight s) (map_weights (balance_weights y) y)"
      using assms(1) False b unfolding set_predefined_weights_def Let_def by auto
    then show ?thesis
      using assms(2-4) False b unfolding set_predefined_weights_def Let_def by auto
  next
    case (Some cw)
    then have "s' = s" "X' = setitem X (sample_weight s) (map_weights cw y)"
      using assms(1) False b unfolding set_predefined_weights_def Let_def by auto
    then show ?thesis
      using assms(2-4) False b Some unfolding set_predefined_weights_def Let_def by auto
  qed
qed

lemma extract_label_cong: "label s2 = label s \<Longrightarrow> extract_label s2 X = extract_label s X"
  by (simp add: extract_label_def cong: sum.case_cong)

lemma gdp_clean_train_settles:
  assumes "gdp_clean_train env s X = (s', Inr res)"
  shows "weights_settled s'"
  using assms unfolding gdp_clean_train_def Let_def
  by (auto split: sum.splits prod.splits dest: set_predefined_weights_settles)

lemma gdp_clean_train_again:
  assumes "gdp_clean_train env s X = (s', Inr res)"
    and "label s2 = label s" and "problem_type s2 = problem_type s"
    and "threshold s2 = threshold s" and "positive_class s2 = positive_class s"
    and "sample_weight s2 = sample_weight s" and "groups s2 = groups s"
    and "cleaner s2 = cleaner s'" and "label_cleaner s2 = label_cleaner s'"
    and "class_weights s2 = class_weights s'"
  shows "gdp_clean_train env s2 X = (s2, Inr res)"
proof -
  obtain yu where yu: "getitem X (label s) = Inr yu"
    using assms(1) unfolding gdp_clean_train_def by (cases "getitem X (label s)") auto
  obtain fitted X1 where f: "Cleaner_fit_transform env (problem_type s) (label s)
      (threshold s) X = (fitted, X1)" by fastforce
  obtain X2 y where e: "extract_label (s\<lparr>cleaner := Some fitted\<rparr>) X1 = Inr (X2, y)"
    using assms(1) by (cases "extract_label (s\<lparr>cleaner := Some fitted\<rparr>) X1")
      (auto simp: gdp_clean_train_def yu f)
  define lc where "lc = LabelCleaner_construct env (problem_type s) y yu (positive_class s)"
  define sm where "sm = s\<lparr>cleaner := Some fitted, label_cleaner := Some lc\<rparr>"
  obtain s3 r3 where w0: "set_predefined_weights sm X2 (lc_transform lc y) = (s3, r3)"
    by fastforce
  have red: "gdp_clean_train env s X =
      (case r3 of Inl e \<Rightarrow> (s3, Inl e)
       | Inr X3 \<Rightarrow>
           (s3, Inr (fst (extract_column (fst (extract_column X3 (sample_weight s3))) (groups s3)),
                   lc_transform lc y, snd (extract_column X3 (sample_weight s3)),
                   snd (extract_column (fst (extract_column X3 (sample_weight s3))) (groups s3)),
                   yu)))"
    using w0 by (simp add: gdp_clean_train_def Let_def yu f e lc_def[symmetric] sm_def[symmetric]
        split_beta split: sum.splits)
  obtain X3 where r3: "r3 = Inr X3" and s3: "s3 = s'"
    and r: "res = (fst (extract_column (fst (extract_column X3 (sample_weight s'))) (groups s')),
                   lc_transform lc y, snd (extract_column X3 (sample_weight s')),
                   snd (extract_column (fst (extract_column X3 (sample_weight s'))) (groups s')),
                   yu)"
    using assms(1) unfolding red by (cases r3) auto
  have w: "set_predefined_weights sm X2 (lc_transform lc y) = (s', Inr X3)"
    using w0 r3 s3 by simp
  from set_predefined_weights_state[OF w] obtain cw where s': "s' = sm\<lparr>class_weights := cw\<rparr>"
    by blast
  have c2: "cleaner s2 = Some fitted" "label_cleaner s2 = Some lc"
    using assms(8,9) s' by (simp_all add: sm_def)
  have id: "s2\<lparr>cleaner := Some fitted, label_cleaner := Some lc\<rparr> = s2"
    using c2 by simp
  have w2: "set_predefined_weights s2 X2 (lc_transform lc y) = (s2, Inr X3)"
    using set_predefined_weights_again[OF w, of s2] assms(3,6,10) by (simp add: sm_def)
  have e2: "extract_label (s2\<lparr>cleaner := Some fitted\<rparr>) X1 = Inr (X2, y)"
    using e assms(2) by (simp add: extract_label_def cong: sum.case_cong)
  have sw: "sample_weight s' = sample_weight s2" "groups s' = groups s2"
    using s' assms(6,7) by (simp_all add: sm_def)
  have yu2: "getitem X (label s2) = Inr yu" using yu assms(2) by simp
  have f2: "Cleaner_fit_transform env (problem_type s2) (label s2) (threshold s2) X = (fitted, X1)"
    using f assms(2-4) by simp
  have lc2: "LabelCleaner_construct env (problem_type s2) y yu (positive_class s2) = lc"
    using assms(3,5) by (simp add: lc_def)
  show ?thesis
    by (simp add: gdp_clean_train_def Let_def yu2 f2 e2 lc2 id w2 r sw split_beta)
qed


lemma check_cong:
  assumes "label s2 = label s"
  shows "check_for_non_finite_values s2 X name is_train
         = check_for_non_finite_values s X name is_train"
  unfolding check_for_non_finite_values_def priv_check_for_non_finite_values_def assms ..

lemma bundle_weights_cong:
  assumes "sample_weight s2 = sample_weight s" and "weight_evaluation s2 = weight_evaluation s"
  shows "bundle_weights s2 X w name is_train = bundle_weights s X w name is_train"
  unfolding bundle_weights_def assms ..

lemma apply_cleaner_transform_settled:
  assumes "weights_settled s"
    and "priv_apply_cleaner_transform s X yu h og name is_test = (s', r)"
  shows "s' = s"
proof -
  have "s' = s \<or> (\<exists>X2 y r'. set_predefined_weights s X2 y = (s', r'))"
    using assms(2) unfolding priv_apply_cleaner_transform_def Let_def
    by (auto split: sum.splits prod.splits option.splits if_splits)
  then show ?thesis using set_predefined_weights_settled[OF assms(1)] by blast
qed

lemma set_predefined_weights_cong:
  assumes "weights_settled s" and "sample_weight s2 = sample_weight s"
    and "problem_type s2 = problem_type s" and "class_weights s2 = class_weights s"
  shows "set_predefined_weights s2 X y = (s2, snd (set_predefined_weights s X y))"
  using assms unfolding set_predefined_weights_def weights_settled_def Let_def
  by (auto split: option.splits)

lemma apply_cleaner_transform_again:
  assumes "weights_settled s"
    and "label s2 = label s" and "cleaner s2 = cleaner s" and "problem_type s2 = problem_type s"
    and "label_cleaner s2 = label_cleaner s" and "sample_weight s2 = sample_weight s"
    and "class_weights s2 = class_weights s"
  shows "priv_apply_cleaner_transform s2 X yu h og name is_test
         = (s2, snd (priv_apply_cleaner_transform s X yu h og name is_test))"
proof -
  define R where "R = (\<lambda>X2 y. snd (set_predefined_weights s X2 y))"
  have w2: "\<And>X2 y. set_predefined_weights s2 X2 y = (s2, R X2 y)"
    using set_predefined_weights_cong[OF assms(1,6,4,7)] by (simp add: R_def)
  have w1: "\<And>X2 y. set_predefined_weights s X2 y = (s, R X2 y)"
    unfolding R_def using set_predefined_weights_settled[OF assms(1)] by (metis prod.collapse)
  have e: "\<And>F. extract_label s2 F = extract_label s F"
    using extract_label_cong[OF assms(2)] .
  show ?thesis
    by (auto simp: priv_apply_cleaner_transform_def Let_def assms(2-6) e w1 w2 split_beta
        split: option.splits sum.splits)
qed


lemma generator_step_refl: "generator_step env s s"
  unfolding generator_step_def by (auto intro: exI[of _ 0])

lemma generator_step_cong:
  "feature_generator s2 = feature_generator s \<Longrightarrow> generator_calls s2 = generator_calls s \<Longrightarrow>
   generator_step env s2 s' = generator_step env s s'"
  unfolding generator_step_def by simp

lemma generator_step_same:
  "feature_generator s' = feature_generator s \<Longrightarrow> generator_calls s' = generator_calls s \<Longrightarrow>
   generator_step env s s'"
  unfolding generator_step_def by (auto intro: exI[of _ 0])

lemma gdp_transform_fit:
  assumes "is_fit (feature_generator s)"
  shows "gdp_transform env s S y yv yts T U =
     (s\<lparr>generator_calls := generator_calls s
            @ (if T = None then [Call_transform] else [Call_transform, Call_transform])\<rparr>,
      Inr (transform (feature_generator s) S, map_option (transform (feature_generator s)) T))"
  using assms unfolding gdp_transform_def transform_with_test_def Let_def
  by (cases T) simp_all

lemma gdp_transform_generator:
  assumes "gdp_transform env s S y yv yts T U = (s', r)"
  shows "generator_step env s s'"
proof (cases "is_fit (feature_generator s)")
  case True
  have "\<exists>k. (if T = None then [Call_transform] else [Call_transform, Call_transform])
        = replicate k Call_transform"
    by (cases T) (auto intro: exI[of _ "Suc 0"] exI[of _ "Suc (Suc 0)"])
  then show ?thesis
    using assms True unfolding gdp_transform_fit[OF True] generator_step_def by auto
next
  case False
  define yl where "yl = [Some y, yv, yts,
      (case U of None \<Rightarrow> None | Some U0 \<Rightarrow> Some (replicate (len U0) NaN))]"
  show ?thesis
  proof (cases "pd_concat_series yl")
    case (Inl e)
    then have "s' = s"
      using assms False unfolding gdp_transform_def Let_def yl_def by simp
    then show ?thesis by (simp add: generator_step_refl)
  next
    case (Inr ys)
    show ?thesis
    proof (cases "label_cleaner s")
      case None
      then have "s' = s"
        using assms False Inr unfolding gdp_transform_def Let_def yl_def by simp
      then show ?thesis by (simp add: generator_step_refl)
    next
      case (Some lc)
      obtain g S' where f: "fit_transform_features env (feature_generator s) S ys
          (problem_type_transform lc) (needs_proba s) = (g, S')" by fastforce
      have g: "g = fst (fit_transform_features env (feature_generator s) S ys
          (problem_type_transform lc) (needs_proba s))" using f by simp
      have "s' = s\<lparr>feature_generator := g,
                    generator_calls := generator_calls s @ Call_fit_transform
                       # replicate (if T = None then 0 else Suc 0) Call_transform\<rparr>"
        using assms False Inr Some f
        unfolding gdp_transform_def transform_with_test_def Let_def yl_def
        by (cases T) auto
      then have "feature_generator s' = g"
        "generator_calls s' = generator_calls s @ Call_fit_transform
                       # replicate (if T = None then 0 else Suc 0) Call_transform"
        by simp_all
      then have "(\<exists>F ys pt np. feature_generator s'
                   = fst (fit_transform_features env (feature_generator s) F ys pt np))
              \<and> (\<exists>k. generator_calls s'
                   = generator_calls s @ Call_fit_transform # replicate k Call_transform)"
        using g by blast
      then show ?thesis
        using False by (simp add: generator_step_def)
    qed
  qed
qed

lemma gdp_features_generator:
  assumes "gdp_features env s X y Xv yv T yt U = (s', r)"
  shows "generator_step env s s'"
proof -
  let ?s = "s\<lparr>original_features := Some (columns X)\<rparr>"
  have "s' = ?s \<or> (\<exists>S r'. gdp_transform env ?s S y yv
      (if transform_with_test then yt else None) T U = (s', r'))"
    using assms unfolding gdp_features_def Let_def
    by (auto split: sum.splits prod.splits)
  then show ?thesis
  proof
    assume "s' = ?s"
    then show ?thesis by (simp add: generator_step_same)
  next
    assume "\<exists>S r'. gdp_transform env ?s S y yv
      (if transform_with_test then yt else None) T U = (s', r')"
    then have "generator_step env ?s s'" using gdp_transform_generator by blast
    moreover have "generator_step env ?s s' = generator_step env s s'"
      by (rule generator_step_cong) simp_all
    ultimately show ?thesis by simp
  qed
qed

lemma gdp_features_again:
  assumes "is_fit (feature_generator s)"
    and "gdp_features env s X y Xv yv T yt U = (s', Inr res)"
    and "feature_generator s2 = feature_generator s"
  shows "\<exists>cols calls. gdp_features env s2 X y Xv yv T yt U
           = (s2\<lparr>original_features := cols, generator_calls := calls\<rparr>, Inr res)"
proof -
  have f2: "is_fit (feature_generator (s2\<lparr>original_features := Some (columns X)\<rparr>))"
    using assms(1,3) by simp
  have f1: "is_fit (feature_generator (s\<lparr>original_features := Some (columns X)\<rparr>))"
    using assms(1) by simp
  define D where "D = [Some X, Xv, if transform_with_test then T else None, U]"
  have unf: "\<And>z. gdp_features env z X y Xv yv T yt U =
     (case pd_concat D of
        Inl e \<Rightarrow> (z\<lparr>original_features := Some (columns X)\<rparr>, Inl e)
      | Inr X_super \<Rightarrow>
          (case gdp_transform env (z\<lparr>original_features := Some (columns X)\<rparr>) X_super y yv
                  (if transform_with_test then yt else None) T U of
             (self, Inl e) \<Rightarrow> (self, Inl e)
           | (self, Inr (X_super, X_test)) \<Rightarrow>
               (case resplit X_super 0 D of
                  Inl e \<Rightarrow> (self, Inl e)
                | Inr datasets \<Rightarrow>
                    (self, Inr (datasets,
                                if transform_with_test then datasets ! 2 else X_test)))))"
    unfolding gdp_features_def Let_def D_def ..
  obtain S where S: "pd_concat D = Inr S"
    using assms(2) unfolding unf by (cases "pd_concat D") auto
  obtain ds where ds: "resplit (transform (feature_generator s) S) 0 D = Inr ds"
    using assms(2) unfolding unf S
    by (cases "resplit (transform (feature_generator s) S) 0 D")
       (auto simp: gdp_transform_fit[OF f1])
  have r: "res = (ds, if transform_with_test then ds ! 2
                      else map_option (transform (feature_generator s)) T)"
    using assms(2) unfolding unf S
    by (auto simp: gdp_transform_fit[OF f1] ds)
  have "gdp_features env s2 X y Xv yv T yt U
      = (s2\<lparr>original_features := Some (columns X),
             generator_calls := generator_calls s2
               @ (if T = None then [Call_transform] else [Call_transform, Call_transform])\<rparr>,
         Inr res)"
    unfolding unf S
    by (simp add: gdp_transform_fit[OF f2] assms(3) ds r)
  then show ?thesis by blast
qed


lemma gdp_threshold_state:
  assumes "gdp_threshold env s X V h n = (s', r)"
  shows "\<exists>t. s' = s\<lparr>threshold := t\<rparr>"
proof -
  have "s' = s\<lparr>threshold := threshold s'\<rparr>"
    using assms unfolding gdp_threshold_unfold Let_def
    by (auto split: sum.splits prod.splits)
  then show ?thesis by blast
qed

lemma generator_step_left:
  "generator_step env (s\<lparr>threshold := t\<rparr>) s' = generator_step env s s'"
  "generator_step env (s\<lparr>class_weights := cw\<rparr>) s' = generator_step env s s'"
  "generator_step env (s\<lparr>cleaner := cl\<rparr>) s' = generator_step env s s'"
  "generator_step env (s\<lparr>label_cleaner := lc\<rparr>) s' = generator_step env s s'"
  by (simp_all add: generator_step_def)

lemma generator_step_right:
  "generator_step env s (s'\<lparr>threshold := t\<rparr>) = generator_step env s s'"
  "generator_step env s (s'\<lparr>class_weights := cw\<rparr>) = generator_step env s s'"
  "generator_step env s (s'\<lparr>cleaner := cl\<rparr>) = generator_step env s s'"
  "generator_step env s (s'\<lparr>label_cleaner := lc\<rparr>) = generator_step env s s'"
  by (simp_all add: generator_step_def)

lemma gdp_generator:
  assumes "general_data_processing env s X X_val X_test X_unlabeled h n = (s', r)"
  shows "generator_step env s s'"
  using assms unfolding general_data_processing_def Let_def
  by (auto simp: generator_step_left generator_step_right generator_step_refl
      split: sum.splits option.splits prod.splits list.splits
      dest!: gdp_threshold_state gdp_clean_train_state apply_cleaner_transform_state
        gdp_features_generator)


lemma count_replicate_transform:
  "count_list (replicate k Call_transform) Call_fit_transform = 0"
  by (induction k) auto

lemma generator_step_fit_count:
  assumes "\<forall>g F ys pt np. is_fit (fst (fit_transform_features env g F ys pt np))"
    and "generator_step env s s'"
    and "if is_fit (feature_generator s) then fit_count s \<le> 1 else fit_count s = 0"
  shows "if is_fit (feature_generator s') then fit_count s' \<le> 1 else fit_count s' = 0"
proof (cases "is_fit (feature_generator s)")
  case True
  then obtain k where "feature_generator s' = feature_generator s"
    "generator_calls s' = generator_calls s @ replicate k Call_transform"
    using assms(2) unfolding generator_step_def by auto
  then show ?thesis using assms(3) True
    by (simp add: fit_count_def count_replicate_transform)
next
  case False
  then have c0: "fit_count s = 0" using assms(3) by simp
  from assms(2) False consider
    (same) "feature_generator s' = feature_generator s" "generator_calls s' = generator_calls s"
    | (fit) F ys pt np k where
      "feature_generator s' = fst (fit_transform_features env (feature_generator s) F ys pt np)"
      "generator_calls s' = generator_calls s @ Call_fit_transform # replicate k Call_transform"
    unfolding generator_step_def by auto
  then show ?thesis
  proof cases
    case same
    then show ?thesis using False c0 by (simp add: fit_count_def)
  next
    case fit
    then have "is_fit (feature_generator s')" using assms(1) by simp
    moreover have "fit_count s' = 1"
      using fit(2) c0 by (simp add: fit_count_def count_replicate_transform)
    ultimately show ?thesis by simp
  qed
qed

lemma process_all_fit_count:
  assumes "\<forall>g F ys pt np. is_fit (fst (fit_transform_features env g F ys pt np))"
    and "if is_fit (feature_generator s) then fit_count s \<le> 1 else fit_count s = 0"
  shows "fit_count (process_all env s calls) \<le> 1"
  using assms(2)
proof (induction calls arbitrary: s)
  case Nil
  then show ?case by (auto split: if_splits)
next
  case (Cons c calls)
  obtain X Xv Xt Xu h n where c: "c = (X, Xv, Xt, Xu, h, n)" by (cases c) auto
  obtain s1 r1 where g: "general_data_processing env s X Xv Xt Xu h n = (s1, r1)" by fastforce
  have "if is_fit (feature_generator s1) then fit_count s1 \<le> 1 else fit_count s1 = 0"
    using generator_step_fit_count[OF assms(1) gdp_generator[OF g] Cons.prems] .
  from Cons.IH[OF this] show ?case using c g by simp
qed

lemma gdp_again:
  assumes fit: "is_fit (feature_generator s)"
    and run: "general_data_processing env s X X_val X_test X_unlabeled h n = (s', Inr out)"
  shows "snd (general_data_processing env s' X X_val X_test X_unlabeled h n) = Inr out"
proof -
  from gdp_returns[OF run]
  obtain Xc Vc Tc sA Xa hf1 nb1 sB Xb y w gcol yu sC Vv yv wv hf2 sD Tt yt wt u
          d0 d1 d2 d3 Tf Xo Vo To where
    c1: "check_for_non_finite_values s (Some X) ''train'' True = Inr (Some Xc)"
    and c2: "(case X_val of None \<Rightarrow> Inr None
        | Some V \<Rightarrow> check_for_non_finite_values s X_val ''val'' False) = Inr Vc"
    and c3: "(case X_test of None \<Rightarrow> Inr None
        | Some T \<Rightarrow> check_for_non_finite_values s X_test ''test'' False) = Inr Tc"
    and p1: "gdp_threshold env s Xc Vc h n = (sA, Inr (Xa, hf1, nb1))"
    and p2: "gdp_clean_train env sA Xa = (sB, Inr (Xb, y, w, gcol, yu))"
    and p3: "priv_apply_cleaner_transform sB Vc yu hf1 h ''val'' False
        = (sC, Inr (Vv, yv, wv, hf2))"
    and p4: "priv_apply_cleaner_transform sC Tc yu hf2 h ''test'' True
        = (sD, Inr (Tt, yt, wt, u))"
    and p5: "gdp_features env sD Xb y Vv yv Tt yt X_unlabeled = (s', Inr ([d0, d1, d2, d3], Tf))"
    and b1: "bundle_weights s' d0 w ''X'' True = Inr Xo"
    and b2: "bundle_weights s' d1 wv ''X_val'' False = Inr Vo"
    and b3: "bundle_weights s' Tf wt ''X_test'' False = Inr To"
    and o: "out = \<lparr>out_X = Xo, out_y = y, out_X_val = Vo, out_y_val = yv,
               out_X_test = To, out_y_test = yt, out_X_unlabeled = d3,
               out_holdout_frac = hf2, out_num_bag_folds = nb1, out_groups = gcol\<rparr>"
    by (elim exE conjE) (erule (11) that)
  from gdp_threshold_state[OF p1] obtain t where sA: "sA = s\<lparr>threshold := t\<rparr>" by blast
  from gdp_clean_train_state[OF p2] obtain cw cl lc where
    sB: "sB = sA\<lparr>class_weights := cw, cleaner := cl, label_cleaner := lc\<rparr>" by blast
  have st: "weights_settled sB" using gdp_clean_train_settles[OF p2] .
  have sC: "sC = sB" using apply_cleaner_transform_settled[OF st p3] .
  have sD: "sD = sB" using apply_cleaner_transform_settled[OF st p4[unfolded sC]] sC by simp
  from gdp_features_state[OF p5] obtain g cols calls where
    s': "s' = sD\<lparr>feature_generator := g, original_features := cols,
                   generator_calls := calls\<rparr>" by blast
  have "generator_step env sD s'" using gdp_features_generator[OF p5] .
  then have g: "feature_generator s' = feature_generator s"
    using fit unfolding generator_step_def sD sB sA by simp
  have fs: "label s' = label s" "needs_proba s' = needs_proba s"
    "problem_type s' = problem_type s" "groups s' = groups s"
    "positive_class s' = positive_class s" "sample_weight s' = sample_weight s"
    "weight_evaluation s' = weight_evaluation s"
    "threshold s' = threshold sA" "cleaner s' = cleaner sB" "label_cleaner s' = label_cleaner sB"
    "class_weights s' = class_weights sB"
    unfolding s' sD sB sA by simp_all
  have fa: "label sA = label s" "problem_type sA = problem_type s"
    "positive_class sA = positive_class s" "sample_weight sA = sample_weight s"
    "groups sA = groups s"
    unfolding sA by simp_all
  have fb: "label sB = label s" "problem_type sB = problem_type s"
    "sample_weight sB = sample_weight s" "feature_generator sB = feature_generator s"
    unfolding sB sA by simp_all
  have q1: "gdp_threshold env s' Xc Vc h n = (s', Inr (Xa, hf1, nb1))"
    using gdp_threshold_again[OF p1, of s'] fs by simp
  have q2: "gdp_clean_train env s' Xa = (s', Inr (Xb, y, w, gcol, yu))"
    using gdp_clean_train_again[OF p2, of s'] fs fa by simp
  have q3: "priv_apply_cleaner_transform s' Vc yu hf1 h ''val'' False
        = (s', Inr (Vv, yv, wv, hf2))"
    using apply_cleaner_transform_again[OF st, of s' Vc yu hf1 h "''val''" False] fs fb
      p3[unfolded sC] by simp
  have q4: "priv_apply_cleaner_transform s' Tc yu hf2 h ''test'' True
        = (s', Inr (Tt, yt, wt, u))"
    using apply_cleaner_transform_again[OF st, of s' Tc yu hf2 h "''test''" True] fs fb
      p4[unfolded sC] sC sD by simp
  have fD: "is_fit (feature_generator sD)" using fit fb sD by simp
  from gdp_features_again[OF fD p5, of s'] obtain cols2 calls2 where
    q5: "gdp_features env s' Xb y Vv yv Tt yt X_unlabeled
           = (s'\<lparr>original_features := cols2, generator_calls := calls2\<rparr>,
              Inr ([d0, d1, d2, d3], Tf))"
    using g fb sD by auto
  define s2 where "s2 = s'\<lparr>original_features := cols2, generator_calls := calls2\<rparr>"
  have bw: "\<And>F v nm tr. bundle_weights s2 F v nm tr = bundle_weights s' F v nm tr"
    by (rule bundle_weights_cong) (simp_all add: s2_def)
  have k1: "check_for_non_finite_values s' (Some X) ''train'' True = Inr (Some Xc)"
    using c1 check_cong[OF fs(1)] by simp
  have k2: "(case X_val of None \<Rightarrow> Inr None
        | Some V \<Rightarrow> check_for_non_finite_values s' X_val ''val'' False) = Inr Vc"
    unfolding check_cong[OF fs(1)] using c2 .
  have k3: "(case X_test of None \<Rightarrow> Inr None
        | Some T \<Rightarrow> check_for_non_finite_values s' X_test ''test'' False) = Inr Tc"
    unfolding check_cong[OF fs(1)] using c3 .
  have "general_data_processing env s' X X_val X_test X_unlabeled h n = (s2, Inr out)"
    unfolding general_data_processing_def Let_def k1 k2 k3
    by (simp add: q1 q2 q3 q4 q5[folded s2_def] bw b1 b2 b3 o)
  then show ?thesis by simp
qed

lemma gdp_features_fit:
  assumes "is_fit (feature_generator s)"
    and "gdp_features env s X y Xv yv T yt U = (s', Inr (ds, Tf))"
  shows "\<exists>S. pd_concat [Some X, Xv, None, U] = Inr S
     \<and> resplit (transform (feature_generator s) S) 0 [Some X, Xv, None, U] = Inr ds
     \<and> Tf = map_option (transform (feature_generator s)) T
     \<and> generator_calls s' = generator_calls s
          @ Call_transform # (case T of None \<Rightarrow> [] | Some T0 \<Rightarrow> [Call_transform])"
proof -
  have f1: "is_fit (feature_generator (s\<lparr>original_features := Some (columns X)\<rparr>))"
    using assms(1) by simp
  define D where "D = [Some X, Xv, None, U]"
  have unf: "gdp_features env s X y Xv yv T yt U =
     (case pd_concat D of
        Inl e \<Rightarrow> (s\<lparr>original_features := Some (columns X)\<rparr>, Inl e)
      | Inr X_super \<Rightarrow>
          (case gdp_transform env (s\<lparr>original_features := Some (columns X)\<rparr>) X_super y yv
                  None T U of
             (self, Inl e) \<Rightarrow> (self, Inl e)
           | (self, Inr (X_super, X_test)) \<Rightarrow>
               (case resplit X_super 0 D of
                  Inl e \<Rightarrow> (self, Inl e)
                | Inr datasets \<Rightarrow> (self, Inr (datasets, X_test)))))"
    unfolding gdp_features_def Let_def D_def transform_with_test_def if_False ..
  obtain S where S: "pd_concat D = Inr S"
    using assms(2) unfolding unf by (cases "pd_concat D") auto
  obtain ds' where ds: "resplit (transform (feature_generator s) S) 0 D = Inr ds'"
    using assms(2) unfolding unf S
    by (cases "resplit (transform (feature_generator s) S) 0 D")
       (auto simp: gdp_transform_fit[OF f1])
  have r: "ds = ds'" "Tf = map_option (transform (feature_generator s)) T"
    "generator_calls s' = generator_calls s
          @ Call_transform # (case T of None \<Rightarrow> [] | Some T0 \<Rightarrow> [Call_transform])"
    using assms(2) unfolding unf S
    by (auto simp: gdp_transform_fit[OF f1] ds split: option.splits)
  show ?thesis using S ds r unfolding D_def by simp
qed

lemma gdp_applies_transform:
  assumes fit: "is_fit (feature_generator s)"
    and run: "general_data_processing env s X X_val X_test X_unlabeled h n = (s', Inr out)"
  shows "\<exists>Xc Vc Tc sA Xa hf1 nb1 sB Xb y w gcol yu Vv yv wv hf2 Tt yt wt u S ds.
        check_for_non_finite_values s (Some X) ''train'' True = Inr (Some Xc)
      \<and> (case X_val of None \<Rightarrow> Inr None
          | Some V \<Rightarrow> check_for_non_finite_values s X_val ''val'' False) = Inr Vc
      \<and> (case X_test of None \<Rightarrow> Inr None
          | Some T \<Rightarrow> check_for_non_finite_values s X_test ''test'' False) = Inr Tc
      \<and> gdp_threshold env s Xc Vc h n = (sA, Inr (Xa, hf1, nb1))
      \<and> gdp_clean_train env sA Xa = (sB, Inr (Xb, y, w, gcol, yu))
      \<and> priv_apply_cleaner_transform sB Vc yu hf1 h ''val'' False
          = (sB, Inr (Vv, yv, wv, hf2))
      \<and> priv_apply_cleaner_transform sB Tc yu hf2 h ''test'' True
          = (sB, Inr (Tt, yt, wt, u))
      \<and> pd_concat [Some Xb, Vv, None, X_unlabeled] = Inr S
      \<and> resplit (transform (feature_generator s) S) 0 [Some Xb, Vv, None, X_unlabeled]
          = Inr ds
      \<and> bundle_weights s (ds ! 0) w ''X'' True = Inr (out_X out)
      \<and> bundle_weights s (ds ! 1) wv ''X_val'' False = Inr (out_X_val out)
      \<and> out_X_unlabeled out = ds ! 3
      \<and> bundle_weights s (map_option (transform (feature_generator s)) Tt) wt ''X_test'' False
          = Inr (out_X_test out)
      \<and> generator_calls s' = generator_calls s
          @ Call_transform # (case Tt of None \<Rightarrow> [] | Some T0 \<Rightarrow> [Call_transform])"
proof -
  from gdp_returns[OF run]
  obtain Xc Vc Tc sA Xa hf1 nb1 sB Xb y w gcol yu sC Vv yv wv hf2 sD Tt yt wt u
          d0 d1 d2 d3 Tf Xo Vo To where
    c1: "check_for_non_finite_values s (Some X) ''train'' True = Inr (Some Xc)"
    and c2: "(case X_val of None \<Rightarrow> Inr None
        | Some V \<Rightarrow> check_for_non_finite_values s X_val ''val'' False) = Inr Vc"
    and c3: "(case X_test of None \<Rightarrow> Inr None
        | Some T \<Rightarrow> check_for_non_finite_values s X_test ''test'' False) = Inr Tc"
    and p1: "gdp_threshold env s Xc Vc h n = (sA, Inr (Xa, hf1, nb1))"
    and p2: "gdp_clean_train env sA Xa = (sB, Inr (Xb, y, w, gcol, yu))"
    and p3: "priv_apply_cleaner_transform sB Vc yu hf1 h ''val'' False
        = (sC, Inr (Vv, yv, wv, hf2))"
    and p4: "priv_apply_cleaner_transform sC Tc yu hf2 h ''test'' True
        = (sD, Inr (Tt, yt, wt, u))"
    and p5: "gdp_features env sD Xb y Vv yv Tt yt X_unlabeled = (s', Inr ([d0, d1, d2, d3], Tf))"
    and b1: "bundle_weights s' d0 w ''X'' True = Inr Xo"
    and b2: "bundle_weights s' d1 wv ''X_val'' False = Inr Vo"
    and b3: "bundle_weights s' Tf wt ''X_test'' False = Inr To"
    and o: "out = \<lparr>out_X = Xo, out_y = y, out_X_val = Vo, out_y_val = yv,
               out_X_test = To, out_y_test = yt, out_X_unlabeled = d3,
               out_holdout_frac = hf2, out_num_bag_folds = nb1, out_groups = gcol\<rparr>"
    by (elim exE conjE) (erule (11) that)
  from gdp_threshold_state[OF p1] obtain t where sA: "sA = s\<lparr>threshold := t\<rparr>" by blast
  from gdp_clean_train_state[OF p2] obtain cw cl lc where
    sB: "sB = sA\<lparr>class_weights := cw, cleaner := cl, label_cleaner := lc\<rparr>" by blast
  have st: "weights_settled sB" using gdp_clean_train_settles[OF p2] .
  have sC: "sC = sB" using apply_cleaner_transform_settled[OF st p3] .
  have sD: "sD = sB" using apply_cleaner_transform_settled[OF st p4[unfolded sC]] sC by simp
  from gdp_features_state[OF p5] obtain g cols calls where
    s': "s' = sD\<lparr>feature_generator := g, original_features := cols,
                   generator_calls := calls\<rparr>" by blast
  have fD: "feature_generator sD = feature_generator s" "generator_calls sD = generator_calls s"
    unfolding sD sB sA by simp_all
  have bw: "\<And>F v nm tr. bundle_weights s' F v nm tr = bundle_weights s F v nm tr"
    by (rule bundle_weights_cong) (simp_all add: s' sD sB sA)
  from gdp_features_fit[OF _ p5] fit fD obtain S where
    S: "pd_concat [Some Xb, Vv, None, X_unlabeled] = Inr S"
    and ds: "resplit (transform (feature_generator s) S) 0 [Some Xb, Vv, None, X_unlabeled]
          = Inr [d0, d1, d2, d3]"
    and Tf: "Tf = map_option (transform (feature_generator s)) Tt"
    and calls: "generator_calls s' = generator_calls s
          @ Call_transform # (case Tt of None \<Rightarrow> [] | Some T0 \<Rightarrow> [Call_transform])"
    by auto
  have q3: "priv_apply_cleaner_transform sB Vc yu hf1 h ''val'' False
          = (sB, Inr (Vv, yv, wv, hf2))" using p3 sC by simp
  have q4: "priv_apply_cleaner_transform sB Tc yu hf2 h ''test'' True
          = (sB, Inr (Tt, yt, wt, u))" using p4 sC sD by simp
  have o1: "bundle_weights s ([d0, d1, d2, d3] ! 0) w ''X'' True = Inr (out_X out)"
    using b1 o bw by simp
  have o2: "bundle_weights s ([d0, d1, d2, d3] ! 1) wv ''X_val'' False = Inr (out_X_val out)"
    using b2 o bw by simp
  have o3: "out_X_unlabeled out = [d0, d1, d2, d3] ! 3" using o by simp
  have o4: "bundle_weights s (map_option (transform (feature_generator s)) Tt) wt ''X_test''
      False = Inr (out_X_test out)"
    using b3 o bw Tf by simp
  show ?thesis
    apply (intro exI conjI)
    apply (rule c1)
    apply (rule c2)
    apply (rule c3)
    apply (rule p1)
    apply (rule p2)
    apply (rule q3)
    apply (rule q4)
    apply (rule S)
    apply (rule ds)
    apply (rule o1)
    apply (rule o2)
    apply (rule o3)
    apply (rule o4)
    apply (rule calls)
    done
qed

text \<open>
  Claim C6. On a learner whose feature generator is fit, lines 270 to 285 pass the
  concatenated frame, and the test frame when there is one, through the generator's
  \<^verbatim>\<open>transform\<close>, one call for each, and nothing else. A call of
  \<^verbatim>\<open>general_data_processing\<close> on such a learner, whether it returns or raises, leaves
  the generator as it was and calls only its \<^verbatim>\<open>transform\<close>. When it returns, the same
  call on the state it left returns the same output; the training, validation and
  unlabeled frames it returns are the rows, split again, of \<^verbatim>\<open>transform\<close> applied to the
  concatenation of the cleaned frames, the test frame it returns is \<^verbatim>\<open>transform\<close> applied
  to the cleaned test frame, each with its weights bundled; and the calls it made are one
  \<^verbatim>\<open>transform\<close> for the concatenation and one more when the cleaned test frame is
  present. When a fit leaves the generator fit, no sequence of calls on a new learner fits
  the generator more than once.
\<close>

theorem fit_generator_is_only_applied:
  "(is_fit (feature_generator self) \<longrightarrow>
      gdp_transform env self X_super ys ys_val ys_test T U
        = (self\<lparr>generator_calls := generator_calls self
                   @ Call_transform # (case T of None \<Rightarrow> [] | Some T0 \<Rightarrow> [Call_transform])\<rparr>,
           Inr (transform (feature_generator self) X_super,
                map_option (transform (feature_generator self)) T)))
   \<and> (is_fit (feature_generator self)
      \<and> general_data_processing env self X X_val X_test X_unlabeled holdout_frac num_bag_folds
          = (self', r) \<longrightarrow>
        feature_generator self' = feature_generator self
      \<and> (\<exists>k. generator_calls self' = generator_calls self @ replicate k Call_transform)
      \<and> (\<forall>out. r = Inr out \<longrightarrow>
            snd (general_data_processing env self' X X_val X_test X_unlabeled holdout_frac
                   num_bag_folds) = Inr out
          \<and> (\<exists>Xc Vc Tc sA Xa hf1 nb1 sB Xb y w gcol yu Vv yv wv hf2 Tt yt wt u S ds.
                check_for_non_finite_values self (Some X) ''train'' True = Inr (Some Xc)
              \<and> (case X_val of None \<Rightarrow> Inr None
                  | Some V \<Rightarrow> check_for_non_finite_values self X_val ''val'' False) = Inr Vc
              \<and> (case X_test of None \<Rightarrow> Inr None
                  | Some T \<Rightarrow> check_for_non_finite_values self X_test ''test'' False) = Inr Tc
              \<and> gdp_threshold env self Xc Vc holdout_frac num_bag_folds
                  = (sA, Inr (Xa, hf1, nb1))
              \<and> gdp_clean_train env sA Xa = (sB, Inr (Xb, y, w, gcol, yu))
              \<and> priv_apply_cleaner_transform sB Vc yu hf1 holdout_frac ''val'' False
                  = (sB, Inr (Vv, yv, wv, hf2))
              \<and> priv_apply_cleaner_transform sB Tc yu hf2 holdout_frac ''test'' True
                  = (sB, Inr (Tt, yt, wt, u))
              \<and> pd_concat [Some Xb, Vv, None, X_unlabeled] = Inr S
              \<and> resplit (transform (feature_generator self) S) 0
                    [Some Xb, Vv, None, X_unlabeled] = Inr ds
              \<and> bundle_weights self (ds ! 0) w ''X'' True = Inr (out_X out)
              \<and> bundle_weights self (ds ! 1) wv ''X_val'' False = Inr (out_X_val out)
              \<and> out_X_unlabeled out = ds ! 3
              \<and> bundle_weights self (map_option (transform (feature_generator self)) Tt) wt
                    ''X_test'' False = Inr (out_X_test out)
              \<and> generator_calls self' = generator_calls self
                  @ Call_transform # (case Tt of None \<Rightarrow> [] | Some T0 \<Rightarrow> [Call_transform]))))
   \<and> ((\<forall>g F ys pt np. is_fit (fst (fit_transform_features env g F ys pt np)))
        \<and> generator_calls self0 = [] \<longrightarrow>
      fit_count (process_all env self0 calls) \<le> 1)"
proof (intro conjI impI allI)
  assume "is_fit (feature_generator self)"
  then show "gdp_transform env self X_super ys ys_val ys_test T U
        = (self\<lparr>generator_calls := generator_calls self
                   @ Call_transform # (case T of None \<Rightarrow> [] | Some T0 \<Rightarrow> [Call_transform])\<rparr>,
           Inr (transform (feature_generator self) X_super,
                map_option (transform (feature_generator self)) T))"
    by (cases T) (simp_all add: gdp_transform_fit)
next
  assume a: "is_fit (feature_generator self)
      \<and> general_data_processing env self X X_val X_test X_unlabeled holdout_frac num_bag_folds
          = (self', r)"
  then have "generator_step env self self'" using gdp_generator by blast
  then show "feature_generator self' = feature_generator self"
    and "\<exists>k. generator_calls self' = generator_calls self @ replicate k Call_transform"
    using a unfolding generator_step_def by simp_all
  fix out assume r: "r = Inr out"
  show "snd (general_data_processing env self' X X_val X_test X_unlabeled holdout_frac
                   num_bag_folds) = Inr out"
    using a r gdp_again by blast
  have run: "general_data_processing env self X X_val X_test X_unlabeled holdout_frac
      num_bag_folds = (self', Inr out)"
    using a r by simp
  show "\<exists>Xc Vc Tc sA Xa hf1 nb1 sB Xb y w gcol yu Vv yv wv hf2 Tt yt wt u S ds.
                check_for_non_finite_values self (Some X) ''train'' True = Inr (Some Xc)
              \<and> (case X_val of None \<Rightarrow> Inr None
                  | Some V \<Rightarrow> check_for_non_finite_values self X_val ''val'' False) = Inr Vc
              \<and> (case X_test of None \<Rightarrow> Inr None
                  | Some T \<Rightarrow> check_for_non_finite_values self X_test ''test'' False) = Inr Tc
              \<and> gdp_threshold env self Xc Vc holdout_frac num_bag_folds
                  = (sA, Inr (Xa, hf1, nb1))
              \<and> gdp_clean_train env sA Xa = (sB, Inr (Xb, y, w, gcol, yu))
              \<and> priv_apply_cleaner_transform sB Vc yu hf1 holdout_frac ''val'' False
                  = (sB, Inr (Vv, yv, wv, hf2))
              \<and> priv_apply_cleaner_transform sB Tc yu hf2 holdout_frac ''test'' True
                  = (sB, Inr (Tt, yt, wt, u))
              \<and> pd_concat [Some Xb, Vv, None, X_unlabeled] = Inr S
              \<and> resplit (transform (feature_generator self) S) 0
                    [Some Xb, Vv, None, X_unlabeled] = Inr ds
              \<and> bundle_weights self (ds ! 0) w ''X'' True = Inr (out_X out)
              \<and> bundle_weights self (ds ! 1) wv ''X_val'' False = Inr (out_X_val out)
              \<and> out_X_unlabeled out = ds ! 3
              \<and> bundle_weights self (map_option (transform (feature_generator self)) Tt) wt
                    ''X_test'' False = Inr (out_X_test out)
              \<and> generator_calls self' = generator_calls self
                  @ Call_transform # (case Tt of None \<Rightarrow> [] | Some T0 \<Rightarrow> [Call_transform])"
    using a by (intro gdp_applies_transform[OF _ run]) simp
next
  assume b: "(\<forall>g F ys pt np. is_fit (fst (fit_transform_features env g F ys pt np)))
        \<and> generator_calls self0 = []"
  then have "if is_fit (feature_generator self0) then fit_count self0 \<le> 1
             else fit_count self0 = 0"
    by (simp add: fit_count_def)
  then show "fit_count (process_all env self0 calls) \<le> 1"
    using process_all_fit_count b by blast
qed

lemma example_processing_returns:
  "(case snd (general_data_processing example_env
                (example_learner\<lparr>feature_generator := \<lparr>is_fit = True, transform = (\<lambda>F. F)\<rparr>\<rparr>)
                example_train (Some example_val) None None (1 / 10) 0) of
      Inl e \<Rightarrow> False | Inr out \<Rightarrow> True)"
  by code_simp

theorem fit_generator_is_only_applied_witness:
  "is_fit (feature_generator
       (fst (general_data_processing example_env
              (example_learner\<lparr>feature_generator := \<lparr>is_fit = True, transform = (\<lambda>F. F)\<rparr>\<rparr>)
              example_train (Some example_val) None None (1 / 10) 0)))
   \<and> generator_calls
         (fst (general_data_processing example_env
                (example_learner\<lparr>feature_generator := \<lparr>is_fit = True, transform = (\<lambda>F. F)\<rparr>\<rparr>)
                example_train (Some example_val) None None (1 / 10) 0))
        = [Call_transform]
   \<and> (\<exists>out. snd (general_data_processing example_env
                (example_learner\<lparr>feature_generator := \<lparr>is_fit = True, transform = (\<lambda>F. F)\<rparr>\<rparr>)
                example_train (Some example_val) None None (1 / 10) 0) = Inr out
         \<and> snd (general_data_processing example_env
                (fst (general_data_processing example_env
                  (example_learner\<lparr>feature_generator := \<lparr>is_fit = True, transform = (\<lambda>F. F)\<rparr>\<rparr>)
                  example_train (Some example_val) None None (1 / 10) 0))
                example_train (Some example_val) None None (1 / 10) 0) = Inr out)
   \<and> fit_count (process_all example_env example_learner
        [(example_train, Some example_val, None, None, 1 / 10, 0),
         (example_train, Some example_val, None, None, 1 / 10, 0)]) \<le> 1"
proof -
  let ?s = "example_learner\<lparr>feature_generator := \<lparr>is_fit = True, transform = (\<lambda>F. F)\<rparr>\<rparr>"
  let ?G = "general_data_processing example_env ?s example_train (Some example_val) None None
              (1 / 10) 0"
  let ?calls = "[(example_train, Some example_val, None, None, 1 / 10, 0),
         (example_train, Some example_val, None, None, 1 / 10 :: rat, 0 :: int)]"
  have f: "is_fit (feature_generator ?s)" by simp
  have e: "?G = (fst ?G, snd ?G)" by simp
  have h: "\<forall>g F ys pt np. is_fit (fst (fit_transform_features example_env g F ys pt np))"
    by (simp add: example_env_def)
  have c: "generator_calls example_learner = []" "generator_calls ?s = []"
    by (simp_all add: example_learner_def)
  obtain out where o: "snd ?G = Inr out"
    using example_processing_returns by (cases "snd ?G") auto
  note T = fit_generator_is_only_applied
    [where self = ?s and env = example_env and X = example_train
       and X_val = "Some example_val" and X_test = None and X_unlabeled = None
       and holdout_frac = "1 / 10" and num_bag_folds = 0 and self' = "fst ?G" and r = "snd ?G"
       and ?self0.0 = example_learner and calls = ?calls]
  note B = T[THEN conjunct2, THEN conjunct1, THEN mp, OF conjI[OF f e]]
  note C = B[THEN conjunct2, THEN conjunct2, THEN spec, THEN mp, OF o]
  have t1: "feature_generator (fst ?G) = feature_generator ?s"
    using B[THEN conjunct1] .
  have t2: "snd (general_data_processing example_env (fst ?G) example_train
            (Some example_val) None None (1 / 10) 0) = Inr out"
    using C[THEN conjunct1] .
  have t3: "fit_count (process_all example_env example_learner ?calls) \<le> 1"
    using T[THEN conjunct2, THEN conjunct2, THEN mp, OF conjI[OF h c(1)]] .
  from C[THEN conjunct2] obtain sB Tc Tt yu hf2 yt wt u where
    k: "(case None :: frame option of None \<Rightarrow> Inr None
         | Some T \<Rightarrow> check_for_non_finite_values ?s None ''test'' False) = Inr Tc"
      "priv_apply_cleaner_transform sB Tc yu hf2 (1 / 10) ''test'' True
         = (sB, Inr (Tt, yt, wt, u))"
      "generator_calls (fst ?G) = generator_calls ?s
         @ Call_transform # (case Tt of None \<Rightarrow> [] | Some T0 \<Rightarrow> [Call_transform])"
    by (elim exE conjE) (erule (2) that)
  have "Tc = None" using k(1) by simp
  then have "Tt = None" using k(2) by (simp add: priv_apply_cleaner_transform_def)
  then have t4: "generator_calls (fst ?G) = [Call_transform]" using k(3) c(2) by simp
  show ?thesis using t1 t2 t3 t4 o by auto
qed

end
